theory Spec2Isabelle
  imports Main "HOL-Library.AList"
begin

section \<open>Values and errors\<close>

text \<open>
  Field values of a record: the scalar values \<open>None\<close>, integers and strings.
  On these three forms Python's \<open>==\<close> and \<open>!=\<close> are structural
  equality and inequality, which is HOL's \<open>=\<close> on the datatype.
\<close>

datatype pyval = PyNone | PyInt int | PyStr string

text \<open>
  Values of class attributes in a configuration block: these are only ever tested
  for truthiness and copied.
\<close>

datatype pyobj =
    ObjNone
  | ObjBool bool
  | ObjInt int
  | ObjStr string
  | ObjTuple "string list"
  | ObjClass string

fun truthy :: "pyobj \<Rightarrow> bool" where
  "truthy ObjNone = False"
| "truthy (ObjBool b) = b"
| "truthy (ObjInt n) = (n \<noteq> 0)"
| "truthy (ObjStr s) = (s \<noteq> [])"
| "truthy (ObjTuple xs) = (xs \<noteq> [])"
| "truthy (ObjClass c) = True"

text \<open>
  The exceptions that the modelled code can raise. \<open>NoSuchRevision\<close> and
  \<open>RevisionExists\<close> are the two classes the module defines; the others are
  Python's and the persistence framework's own.
\<close>

datatype error =
    NoSuchRevision
  | RevisionExists int string
  | DoesNotExist
  | MultipleObjectsReturned
  | AttributeError string
  | KeyError string
  | TypeError
  | AssertionError

section \<open>Argument filter\<close>

definition DEFAULT_ALLOWED_KWARGS :: "string list" where
  "DEFAULT_ALLOWED_KWARGS =
     [''null'', ''blank'', ''choices'', ''core'', ''db_column'', ''db_index'',
      ''db_tablespace'', ''default'', ''editable'', ''help_text'', ''unique'',
      ''unique_for_date'', ''unique_for_month'', ''unique_for_year'',
      ''validator_list'', ''name'']"

text \<open>
  \<open>ALLOWED_KWARGS_BY_TYPE\<close> is filled at import time from the constructor
  signatures of the framework's field types, so it is a parameter here: a
  dictionary from field-type name to parameter names. The attribute dictionary is
  an association list; the loop of \<open>filter_kwargs\<close> keeps an item exactly
  when its key is in the allowed list.
\<close>

fun filter_loop :: "string list \<Rightarrow> (string \<times> 'v) list \<Rightarrow> (string \<times> 'v) list" where
  "filter_loop allowed [] = []"
| "filter_loop allowed ((key, v) # items) =
     (if key \<notin> set allowed then filter_loop allowed items
      else (key, v) # filter_loop allowed items)"

definition filter_kwargs ::
  "(string \<rightharpoonup> string list) \<Rightarrow> (string \<times> 'v) list \<Rightarrow> string \<Rightarrow> error + (string \<times> 'v) list" where
  "filter_kwargs ALLOWED_KWARGS_BY_TYPE kwargs ty =
     (case ALLOWED_KWARGS_BY_TYPE ty of
        None \<Rightarrow> Inl (KeyError ty)
      | Some argnames \<Rightarrow> Inr (filter_loop (DEFAULT_ALLOWED_KWARGS @ argnames) kwargs))"

section \<open>Settings resolver\<close>

type_synonym pydict = "(string \<times> pyobj) list"

text \<open>
  The nested configuration block \<open>Meta\<close> is a class object. \<open>getattr\<close>
  finds an attribute in the block's own dictionary or, failing that, in a base
  class of the block; \<open>delattr\<close> removes an attribute of the block's own
  dictionary only, and raises \<open>AttributeError\<close> for any other name.
\<close>

record config_block =
  own :: pydict
  inherited :: pydict

definition getattr_default :: "config_block \<Rightarrow> string \<Rightarrow> pyobj \<Rightarrow> pyobj" where
  "getattr_default opts name dflt =
     (case map_of (own opts) name of
        Some v \<Rightarrow> v
      | None \<Rightarrow> (case map_of (inherited opts) name of Some v \<Rightarrow> v | None \<Rightarrow> dflt))"

definition delattr :: "config_block \<Rightarrow> string \<Rightarrow> error + config_block" where
  "delattr opts name =
     (case map_of (own opts) name of
        None \<Rightarrow> Inl (AttributeError name)
      | Some v \<Rightarrow> Inr (opts\<lparr>own := AList.delete name (own opts)\<rparr>))"

definition lower_char :: "char \<Rightarrow> char" where
  "lower_char c =
     (case map_of (zip ''ABCDEFGHIJKLMNOPQRSTUVWXYZ'' ''abcdefghijklmnopqrstuvwxyz'') c of
        Some d \<Rightarrow> d
      | None \<Rightarrow> c)"

definition lower :: "string \<Rightarrow> string" where
  "lower s = map lower_char s"

definition startswith_underscore :: "string \<Rightarrow> bool" where
  "startswith_underscore name = (case name of [] \<Rightarrow> False | c # cs \<Rightarrow> c = CHR ''_'')"

text \<open>The dictionary of defaults that \<open>RevisedSettings\<close> builds first.\<close>

definition default_settings :: "string \<Rightarrow> pydict" where
  "default_settings name =
     [(''foreign_key_field_name'', ObjStr (lower name)),
      (''related_name'', ObjStr ''revisions''),
      (''revision_field_name'', ObjStr ''revision''),
      (''revision_model_name'', ObjStr (name @ ''Revision'')),
      (''unrevised_fields'', ObjTuple []),
      (''register_with_admin_site'', ObjBool False),
      (''RevisedAdmin'', ObjClass ''AdminSettings'')]"

text \<open>
  \<open>dir(settings)\<close>, in its sorted order: the seven settings, and the
  attributes that every class has, whose names all start with an underscore
  (\<open>__doc__\<close> and \<open>__module__\<close> stand for them).
\<close>

definition dir_settings :: "string list" where
  "dir_settings =
     [''RevisedAdmin'', ''__doc__'', ''__module__'', ''foreign_key_field_name'',
      ''register_with_admin_site'', ''related_name'', ''revision_field_name'',
      ''revision_model_name'', ''unrevised_fields'']"

fun settings_loop :: "string list \<Rightarrow> pydict \<Rightarrow> config_block \<Rightarrow> error + (pydict \<times> config_block)" where
  "settings_loop [] settings opts = Inr (settings, opts)"
| "settings_loop (name # names) settings opts =
     (if startswith_underscore name then settings_loop names settings opts
      else
        (let v = getattr_default opts name (ObjBool False) in
         if truthy v then
           (case delattr opts name of
              Inl e \<Rightarrow> Inl e
            | Inr opts' \<Rightarrow> settings_loop names (AList.update name v settings) opts')
         else settings_loop names settings opts))"

text \<open>
  \<open>RevisedSettings name attrs\<close>: of the class attributes only the entry
  \<open>Meta\<close> matters, so the second argument is that entry if there is one. The
  function mutates the block in place; the model returns it beside the settings.
\<close>

definition RevisedSettings ::
  "string \<Rightarrow> config_block option \<Rightarrow> error + (pydict \<times> config_block option)" where
  "RevisedSettings name Meta =
     (let settings = default_settings name in
      case Meta of
        None \<Rightarrow> Inr (settings, None)
      | Some opts \<Rightarrow>
          (case settings_loop dir_settings settings opts of
             Inl e \<Rightarrow> Inl e
           | Inr (settings', opts') \<Rightarrow> Inr (settings', Some opts')))"

section \<open>Tracked types, instances and the store\<close>

text \<open>
  The resolved settings as the instance operations read them, with the list
  \<open>revised_field_names\<close> that the metaclass attaches.
\<close>

record revised_settings =
  foreign_key_field_name :: string
  related_name :: string
  revision_field_name :: string
  unrevised_fields :: "string list"
  revised_field_names :: "string list"

text \<open>
  A History Record: its primary key (\<open>None\<close> until the framework assigns one),
  its field values by field name, and its foreign key, which is the primary key of
  the instance it was archived from.
\<close>

record revision =
  r_pk :: "nat option"
  r_values :: "string \<Rightarrow> pyval"
  r_owner :: "nat option"

text \<open>
  The History Type, as far as its \<open>save\<close> needs it: the settings and the
  \<open>repr\<close> of its records.
\<close>

record revision_cls =
  rc_settings :: revised_settings
  rc_repr :: "revision \<Rightarrow> string"

text \<open>
  The Tracked Type: the fields of \<open>_meta._fields()\<close> other than the primary
  key, each with its default value, the settings, and the History Type (held by
  the settings in the source).
\<close>

record model_cls =
  meta_fields :: "(string \<times> pyval) list"
  settings :: revised_settings
  revised_model_cls :: revision_cls

text \<open>
  An instance of a Tracked Type: the primary key, the values of its attributes
  (read at field names only), and the Snapshot \<open>_revised_initial_values\<close>,
  which is \<open>None\<close> as long as the attribute does not exist.
\<close>

record tracked_instance =
  pk :: "nat option"
  attrs :: "string \<Rightarrow> pyval"
  revised_initial_values :: "(string \<times> pyval) list option"

text \<open>
  The store of the persistence framework: the rows of the Tracked Type by primary
  key, the rows of the History Type in the order of their insertion, and the next
  primary key of each table. Constraints of the storage level (columns that are
  not nullable, \<open>unique_together\<close>) are the database's and are not modelled.
\<close>

record db =
  instance_rows :: "(nat \<times> (string \<Rightarrow> pyval)) list"
  revision_rows :: "revision list"
  next_pk :: nat
  next_revision_pk :: nat

definition setattr :: "tracked_instance \<Rightarrow> string \<Rightarrow> pyval \<Rightarrow> tracked_instance" where
  "setattr self name v = self\<lparr>attrs := (attrs self)(name := v)\<rparr>"

subsection \<open>The metaclass, as far as the field lists go\<close>

text \<open>
  \<open>RevisedModelBase.__new__\<close> puts the revision-number field, with default 1,
  among the declared attributes (replacing a declared field of that name) before
  the type is built, and records as \<open>revised_field_names\<close> the fields that are
  neither the primary key nor listed in \<open>unrevised_fields\<close>.
\<close>

definition RevisedModelBase_new ::
  "revised_settings \<Rightarrow> (string \<times> pyval) list \<Rightarrow> (revision \<Rightarrow> string) \<Rightarrow> model_cls" where
  "RevisedModelBase_new s declared repr_fn =
     (let flds = filter (\<lambda>fd. fst fd \<noteq> revision_field_name s) declared
                   @ [(revision_field_name s, PyInt 1)];
          names = filter (\<lambda>name. name \<notin> set (unrevised_fields s)) (map fst flds);
          s' = s\<lparr>revised_field_names := names\<rparr>
      in \<lparr>meta_fields = flds, settings = s',
          revised_model_cls = \<lparr>rc_settings = s', rc_repr = repr_fn\<rparr>\<rparr>)"

subsection \<open>The Snapshot\<close>

text \<open>
  \<open>record_model_values\<close> is connected to \<open>post_init\<close> and \<open>post_save\<close>.
  Its first argument is the test \<open>issubclass(sender, RevisedModel)\<close>.
\<close>

definition record_model_values :: "bool \<Rightarrow> model_cls \<Rightarrow> tracked_instance \<Rightarrow> tracked_instance" where
  "record_model_values is_revised cls inst =
     (if \<not> is_revised then inst
      else inst\<lparr>revised_initial_values :=
             Some (map (\<lambda>field_name. (field_name, attrs inst field_name))
                     (revised_field_names (settings cls)))\<rparr>)"

text \<open>
  Construction of an instance from keyword arguments: every field takes the
  argument given for it or else its default, and \<open>post_init\<close> fires.
\<close>

definition Model_init :: "model_cls \<Rightarrow> (string \<times> pyval) list \<Rightarrow> tracked_instance" where
  "Model_init cls kwargs =
     record_model_values True cls
       \<lparr>pk = None,
        attrs = (\<lambda>name. case map_of kwargs name of
                   Some v \<Rightarrow> v
                 | None \<Rightarrow> (case map_of (meta_fields cls) name of
                              Some d \<Rightarrow> d
                            | None \<Rightarrow> PyNone)),
        revised_initial_values = None\<rparr>"

fun changed_loop :: "(string \<Rightarrow> pyval) \<Rightarrow> (string \<times> pyval) list \<Rightarrow> bool" where
  "changed_loop a [] = False"
| "changed_loop a ((key, v) # items) = (if a key \<noteq> v then True else changed_loop a items)"

definition changed :: "tracked_instance \<Rightarrow> error + bool" where
  "changed self =
     (case revised_initial_values self of
        None \<Rightarrow> Inl (AttributeError ''_revised_initial_values'')
      | Some initial_values \<Rightarrow> Inr (changed_loop (attrs self) initial_values))"

subsection \<open>The framework's save and queries\<close>

text \<open>
  \<open>Model.save\<close> on an instance of the Tracked Type: a row is inserted under a
  fresh primary key when the instance has none, and written under the instance's
  key otherwise; then \<open>post_save\<close> fires.
\<close>

definition Model_save :: "model_cls \<Rightarrow> tracked_instance \<Rightarrow> db \<Rightarrow> tracked_instance \<times> db" where
  "Model_save cls self st =
     (let p = (case pk self of None \<Rightarrow> next_pk st | Some q \<Rightarrow> q);
          self' = self\<lparr>pk := Some p\<rparr>;
          st' = st\<lparr>instance_rows := AList.update p (attrs self) (instance_rows st),
                   next_pk := max (next_pk st) (Suc p)\<rparr>
      in (record_model_values True cls self', st'))"

text \<open>
  \<open>Model.save\<close> on a History Record without a primary key: the row is inserted
  under a fresh key. (The write-once save below calls it in no other case.)
\<close>

definition Model_save_revision :: "revision \<Rightarrow> db \<Rightarrow> revision \<times> db" where
  "Model_save_revision r st =
     (let r' = r\<lparr>r_pk := Some (next_revision_pk st)\<rparr>
      in (r', st\<lparr>revision_rows := revision_rows st @ [r'],
                 next_revision_pk := Suc (next_revision_pk st)\<rparr>))"

text \<open>\<open>Model.delete\<close> on a History Record removes its row.\<close>

definition Model_delete_revision :: "revision \<Rightarrow> db \<Rightarrow> db" where
  "Model_delete_revision x st =
     st\<lparr>revision_rows := filter (\<lambda>r. r_pk r \<noteq> r_pk x) (revision_rows st)\<rparr>"

text \<open>
  The reverse accessor of an instance: the History Records whose foreign key is
  the instance's primary key. \<open>all\<close> lists them; \<open>get\<close> returns the one
  record with the given value in the given field, and raises \<open>DoesNotExist\<close>
  when there is none and \<open>MultipleObjectsReturned\<close> when there are several.
\<close>

definition related_all :: "db \<Rightarrow> tracked_instance \<Rightarrow> revision list" where
  "related_all st self =
     filter (\<lambda>r. case pk self of None \<Rightarrow> False | Some p \<Rightarrow> r_owner r = Some p)
       (revision_rows st)"

definition related_get :: "db \<Rightarrow> tracked_instance \<Rightarrow> string \<Rightarrow> pyval \<Rightarrow> error + revision" where
  "related_get st self name v =
     (case filter (\<lambda>r. r_values r name = v) (related_all st self) of
        [] \<Rightarrow> Inl DoesNotExist
      | [r] \<Rightarrow> Inr r
      | r # r' # rs \<Rightarrow> Inl MultipleObjectsReturned)"

section \<open>Write-once save of the History Type\<close>

text \<open>
  \<open>revision_model_save\<close>. The message of \<open>RevisionExists\<close> is built with
  \<open>%d\<close> from the revision number and with \<open>%s\<close> from \<open>repr(self)\<close>;
  \<open>%d\<close> raises \<open>TypeError\<close> for a value that is not a number. The result
  carries the store as it is when the call returns or raises.
\<close>

definition revision_model_save ::
  "revision_cls \<Rightarrow> revision \<Rightarrow> db \<Rightarrow> (error + revision) \<times> db" where
  "revision_model_save revision_cls self st =
     (case r_pk self of
        None \<Rightarrow> (case Model_save_revision self st of (self', st') \<Rightarrow> (Inr self', st'))
      | Some p \<Rightarrow>
          (let revision_num = r_values self (revision_field_name (rc_settings revision_cls));
               instance_name = rc_repr revision_cls self
           in case revision_num of
                PyInt n \<Rightarrow> (Inl (RevisionExists n instance_name), st)
              | _ \<Rightarrow> (Inl TypeError, st)))"

section \<open>Change-tracking protocol\<close>

text \<open>
  \<open>__save_revision\<close>: a History Record is built from the Snapshot (a field the
  Snapshot does not name is \<open>None\<close>), its foreign key is set to the instance,
  and it is saved; the result is the Snapshot's entry for the revision-number
  field.
\<close>

definition save_revision :: "model_cls \<Rightarrow> tracked_instance \<Rightarrow> db \<Rightarrow> (error + pyval) \<times> db" where
  "save_revision cls self st =
     (case revised_initial_values self of
        None \<Rightarrow> (Inl (AttributeError ''_revised_initial_values''), st)
      | Some kwargs \<Rightarrow>
          (let revision =
                 \<lparr>r_pk = None,
                  r_values = (\<lambda>name. case map_of kwargs name of Some v \<Rightarrow> v | None \<Rightarrow> PyNone),
                  r_owner = None\<rparr>;
               revision = revision\<lparr>r_owner := pk self\<rparr>
           in case revision_model_save (revised_model_cls cls) revision st of
                (Inl e, st') \<Rightarrow> (Inl e, st')
              | (Inr saved, st') \<Rightarrow>
                  (case map_of kwargs (revision_field_name (settings cls)) of
                     None \<Rightarrow> (Inl (KeyError (revision_field_name (settings cls))), st')
                   | Some curr_revision \<Rightarrow> (Inr curr_revision, st'))))"

text \<open>\<open>RevisedModel.save\<close>.\<close>

definition RevisedModel_save :: "model_cls \<Rightarrow> tracked_instance \<Rightarrow> db \<Rightarrow> (error + tracked_instance) \<times> db" where
  "RevisedModel_save cls self st =
     (if pk self \<noteq> None then
        (case changed self of
           Inl e \<Rightarrow> (Inl e, st)
         | Inr False \<Rightarrow> (case Model_save cls self st of (self', st') \<Rightarrow> (Inr self', st'))
         | Inr True \<Rightarrow>
             (case save_revision cls self st of
                (Inl e, st') \<Rightarrow> (Inl e, st')
              | (Inr just_saved_revision, st') \<Rightarrow>
                  (case just_saved_revision of
                     PyInt n \<Rightarrow>
                       (case Model_save cls
                               (setattr self (revision_field_name (settings cls)) (PyInt (n + 1)))
                               st' of
                          (self', st'') \<Rightarrow> (Inr self', st''))
                   | _ \<Rightarrow> (Inl TypeError, st'))))
      else (case Model_save cls self st of (self', st') \<Rightarrow> (Inr self', st')))"

text \<open>
  \<open>Model.delete\<close> on an instance of the Tracked Type. The framework refuses an
  instance without a primary key. Otherwise it collects the rows that refer to
  the instance through a foreign key and deletes them together with the row of
  the instance; the History Type refers to the Tracked Type through the foreign
  key that the metaclass gives it, so the History Records of the instance go
  with it.
\<close>

definition Model_delete :: "tracked_instance \<Rightarrow> db \<Rightarrow> (error + unit) \<times> db" where
  "Model_delete self st =
     (case pk self of
        None \<Rightarrow> (Inl AssertionError, st)
      | Some p \<Rightarrow>
          (Inr (),
           st\<lparr>revision_rows := filter (\<lambda>r. r_owner r \<noteq> Some p) (revision_rows st),
              instance_rows := AList.delete p (instance_rows st)\<rparr>))"

text \<open>\<open>RevisedModel.delete\<close>.\<close>

fun delete_loop :: "revision list \<Rightarrow> db \<Rightarrow> db" where
  "delete_loop [] st = st"
| "delete_loop (x # xs) st = delete_loop xs (Model_delete_revision x st)"

definition RevisedModel_delete ::
  "model_cls \<Rightarrow> tracked_instance \<Rightarrow> bool \<Rightarrow> db \<Rightarrow> (error + unit) \<times> db" where
  "RevisedModel_delete cls self deep st =
     (if deep then Model_delete self (delete_loop (related_all st self) st)
      else
        (case save_revision cls self st of
           (Inl e, st') \<Rightarrow> (Inl e, st')
         | (Inr curr_revision, st') \<Rightarrow> Model_delete self st'))"

text \<open>
  \<open>RevisedModel.revert_to_revision\<close>. The loop runs over the fields of the type
  other than the primary key, skips those in \<open>unrevised_fields\<close> and assigns
  the others. The operation reads the store and changes the instance in memory
  only, so its result holds no store.
\<close>

fun revert_loop :: "string list \<Rightarrow> string list \<Rightarrow> revision \<Rightarrow> tracked_instance \<Rightarrow> tracked_instance" where
  "revert_loop unrevised [] old_revision self = self"
| "revert_loop unrevised (name # names) old_revision self =
     (if name \<in> set unrevised then revert_loop unrevised names old_revision self
      else revert_loop unrevised names old_revision
             (setattr self name (r_values old_revision name)))"

definition revert_to_revision :: "model_cls \<Rightarrow> tracked_instance \<Rightarrow> int \<Rightarrow> db \<Rightarrow> error + tracked_instance" where
  "revert_to_revision cls self revision_to_delete st =
     (case related_get st self (revision_field_name (settings cls)) (PyInt revision_to_delete) of
        Inl e \<Rightarrow> Inl e
      | Inr old_revision \<Rightarrow>
          Inr (revert_loop (unrevised_fields (settings cls)) (map fst (meta_fields cls))
                 old_revision self))"

subsection \<open>Sequences of operations on one instance\<close>

datatype operation = Save | Mutate string pyval

fun run :: "model_cls \<Rightarrow> operation list \<Rightarrow> tracked_instance \<Rightarrow> db \<Rightarrow> (error + tracked_instance) \<times> db" where
  "run cls [] self st = (Inr self, st)"
| "run cls (Save # ops) self st =
     (case RevisedModel_save cls self st of
        (Inl e, st') \<Rightarrow> (Inl e, st')
      | (Inr self', st') \<Rightarrow> run cls ops self' st')"
| "run cls (Mutate name v # ops) self st = run cls ops (setattr self name v) st"

definition empty_db :: db where
  "empty_db = \<lparr>instance_rows = [], revision_rows = [], next_pk = 1, next_revision_pk = 1\<rparr>"

text \<open>
  The History Records that a run appended to the store, and the property that a
  list of revision numbers counts up from \<open>m\<close> in steps of one.
\<close>

definition archived :: "db \<Rightarrow> db \<Rightarrow> revision list" where
  "archived st st' = drop (length (revision_rows st)) (revision_rows st')"

definition archived_revisions :: "model_cls \<Rightarrow> db \<Rightarrow> db \<Rightarrow> pyval list" where
  "archived_revisions cls st st' =
     map (\<lambda>r. r_values r (revision_field_name (settings cls))) (archived st st')"

fun consecutive_from :: "int \<Rightarrow> pyval list \<Rightarrow> bool" where
  "consecutive_from m [] = True"
| "consecutive_from m (v # vs) = (v = PyInt m \<and> consecutive_from (m + 1) vs)"

text \<open>
  The invariant between two archived revisions: the instance is persisted, and
  its Snapshot was taken from the revised fields at a moment when the
  revision-number field, if it is revised, held \<open>k\<close>.
\<close>

definition snapshot_at :: "model_cls \<Rightarrow> tracked_instance \<Rightarrow> int \<Rightarrow> bool" where
  "snapshot_at cls self k =
     (\<exists>a. revised_initial_values self =
            Some (map (\<lambda>f. (f, a f)) (revised_field_names (settings cls))) \<and>
          (revision_field_name (settings cls) \<in> set (revised_field_names (settings cls)) \<longrightarrow>
             a (revision_field_name (settings cls)) = PyInt k))"

text \<open>
  The revision number that an instance without a primary key holds when it is
  first saved: the value of its revision-number field after the mutations that
  come before the first save of the run.
\<close>

fun apply_mutations :: "operation list \<Rightarrow> tracked_instance \<Rightarrow> tracked_instance" where
  "apply_mutations [] self = self"
| "apply_mutations (Save # ops) self = apply_mutations ops self"
| "apply_mutations (Mutate name v # ops) self = apply_mutations ops (setattr self name v)"

definition first_saved_revision :: "model_cls \<Rightarrow> operation list \<Rightarrow> tracked_instance \<Rightarrow> pyval" where
  "first_saved_revision cls ops self =
     attrs (apply_mutations (takeWhile (\<lambda>op. op \<noteq> Save) ops) self)
       (revision_field_name (settings cls))"

section \<open>A tracked type for the examples\<close>

text \<open>
  A type \<open>Article\<close> with the declared fields \<open>name\<close> and \<open>views\<close>,
  of which \<open>views\<close> is listed in \<open>unrevised_fields\<close>, built by the
  metaclass; and History Records of that type.
\<close>

definition ex_settings :: revised_settings where
  "ex_settings =
     \<lparr>foreign_key_field_name = ''article'', related_name = ''revisions'',
      revision_field_name = ''revision'', unrevised_fields = [''views''],
      revised_field_names = []\<rparr>"

definition Article :: model_cls where
  "Article =
     RevisedModelBase_new ex_settings [(''name'', PyStr ''''), (''views'', PyInt 0)]
       (\<lambda>r. ''<ArticleRevision: ArticleRevision object>'')"

definition ex_revision :: "nat option \<Rightarrow> string \<Rightarrow> int \<Rightarrow> nat \<Rightarrow> revision" where
  "ex_revision key name n owner =
     \<lparr>r_pk = key,
      r_values =
        (\<lambda>f. if f = ''name'' then PyStr name else if f = ''revision'' then PyInt n else PyNone),
      r_owner = Some owner\<rparr>"

definition ex_attrs :: "string \<Rightarrow> int \<Rightarrow> int \<Rightarrow> string \<Rightarrow> pyval" where
  "ex_attrs name n views =
     (\<lambda>f. if f = ''name'' then PyStr name else if f = ''revision'' then PyInt n
          else if f = ''views'' then PyInt views else PyNone)"

text \<open>
  The instance and the store after the scenario: construct with \<open>name = "A"\<close>,
  save, set \<open>name = "B"\<close>, save.
\<close>

definition ex_instance :: tracked_instance where
  "ex_instance =
     \<lparr>pk = Some 1, attrs = ex_attrs ''B'' 2 0,
      revised_initial_values = Some [(''name'', PyStr ''B''), (''revision'', PyInt 2)]\<rparr>"

definition ex_db :: db where
  "ex_db =
     \<lparr>instance_rows = [(1, ex_attrs ''B'' 2 0)],
      revision_rows = [ex_revision (Some 1) ''A'' 1 1],
      next_pk = 2, next_revision_pk = 2\<rparr>"



section \<open>Properties of the argument filter\<close>

lemma map_of_filter_loop:
  "map_of (filter_loop allowed kwargs) = map_of kwargs |` set allowed"
proof (induction kwargs)
  case Nil
  show ?case by simp
next
  case (Cons item items)
  obtain key v where item: "item = (key, v)" by (cases item)
  show ?case
  proof (cases "key \<in> set allowed")
    case True
    with Cons item show ?thesis
      by (auto simp: restrict_map_def fun_eq_iff)
  next
    case False
    with Cons item show ?thesis
      by (auto simp: restrict_map_def fun_eq_iff)
  qed
qed

lemma filter_loop_filter:
  "filter_loop allowed kwargs = filter (\<lambda>item. fst item \<in> set allowed) kwargs"
  by (induction kwargs) auto

text \<open>
  C7. For a field-type name in the table, \<open>filter_kwargs\<close> returns exactly the
  items of the attribute dictionary whose keys lie in the baseline list or in that
  type's parameter list (as a dictionary: the attributes restricted to those keys;
  as a list: the items with such keys, every other item dropped). For a name that
  is not in the table it raises \<open>KeyError\<close> and returns nothing.
\<close>

theorem filter_kwargs_spec:
  "(ALLOWED_KWARGS_BY_TYPE ty = Some argnames \<longrightarrow>
      (\<exists>new_kwargs.
         filter_kwargs ALLOWED_KWARGS_BY_TYPE kwargs ty = Inr new_kwargs \<and>
         map_of new_kwargs = map_of kwargs |` (set DEFAULT_ALLOWED_KWARGS \<union> set argnames) \<and>
         new_kwargs =
           filter (\<lambda>item. fst item \<in> set DEFAULT_ALLOWED_KWARGS \<union> set argnames) kwargs)) \<and>
   (ALLOWED_KWARGS_BY_TYPE ty = None \<longrightarrow>
      filter_kwargs ALLOWED_KWARGS_BY_TYPE kwargs ty = Inl (KeyError ty))"
proof (intro conjI impI)
  assume known: "ALLOWED_KWARGS_BY_TYPE ty = Some argnames"
  let ?allowed = "DEFAULT_ALLOWED_KWARGS @ argnames"
  have "filter_kwargs ALLOWED_KWARGS_BY_TYPE kwargs ty = Inr (filter_loop ?allowed kwargs)"
    using known by (simp add: filter_kwargs_def)
  moreover have "map_of (filter_loop ?allowed kwargs) =
      map_of kwargs |` (set DEFAULT_ALLOWED_KWARGS \<union> set argnames)"
    using map_of_filter_loop [of ?allowed kwargs] by simp
  moreover have "filter_loop ?allowed kwargs =
      filter (\<lambda>item. fst item \<in> set DEFAULT_ALLOWED_KWARGS \<union> set argnames) kwargs"
    using filter_loop_filter [of ?allowed kwargs] by simp
  ultimately show "\<exists>new_kwargs.
         filter_kwargs ALLOWED_KWARGS_BY_TYPE kwargs ty = Inr new_kwargs \<and>
         map_of new_kwargs = map_of kwargs |` (set DEFAULT_ALLOWED_KWARGS \<union> set argnames) \<and>
         new_kwargs =
           filter (\<lambda>item. fst item \<in> set DEFAULT_ALLOWED_KWARGS \<union> set argnames) kwargs"
    by blast
next
  assume "ALLOWED_KWARGS_BY_TYPE ty = None"
  then show "filter_kwargs ALLOWED_KWARGS_BY_TYPE kwargs ty = Inl (KeyError ty)"
    by (simp add: filter_kwargs_def)
qed

theorem filter_kwargs_spec_witness:
  "[''CharField'' \<mapsto> [''max_length'']] ''CharField'' = Some [''max_length''] \<and>
   filter_kwargs [''CharField'' \<mapsto> [''max_length'']]
     [(''max_length'', PyInt 30), (''creation_counter'', PyInt 7), (''null'', PyInt 0)]
     ''CharField''
   = Inr [(''max_length'', PyInt 30), (''null'', PyInt 0)] \<and>
   [''CharField'' \<mapsto> [''max_length'']] ''TextField'' = None \<and>
   filter_kwargs [''CharField'' \<mapsto> [''max_length'']]
     [(''max_length'', PyInt 30)] ''TextField''
   = Inl (KeyError ''TextField'')"
  using
    filter_kwargs_spec [of "[''CharField'' \<mapsto> [''max_length'']]" "''CharField''"
      "[''max_length'']"
      "[(''max_length'', PyInt 30), (''creation_counter'', PyInt 7), (''null'', PyInt 0)]"]
    filter_kwargs_spec [of "[''CharField'' \<mapsto> [''max_length'']]" "''TextField''"
      "[]" "[(''max_length'', PyInt 30)]"]
  by (simp add: DEFAULT_ALLOWED_KWARGS_def)

section \<open>Facts about the example type\<close>

lemma Article_simps:
  "meta_fields Article = [(''name'', PyStr ''''), (''views'', PyInt 0), (''revision'', PyInt 1)]"
  "revision_field_name (settings Article) = ''revision''"
  "unrevised_fields (settings Article) = [''views'']"
  "revised_field_names (settings Article) = [''name'', ''revision'']"
  "revision_field_name (rc_settings (revised_model_cls Article)) = ''revision''"
  "rc_repr (revised_model_cls Article) r = ''<ArticleRevision: ArticleRevision object>''"
  by (simp_all add: Article_def ex_settings_def RevisedModelBase_new_def Let_def)

text \<open>
  The example instance and store are the state that the scenario reaches:
  construct with \<open>name = "A"\<close>, save, set \<open>name = "B"\<close>, save. One
  History Record, with \<open>name = "A"\<close> and revision 1, is archived, and the
  live instance has \<open>name = "B"\<close> and revision 2.
\<close>

lemma scenario_reaches_example:
  "run Article [Save, Mutate ''name'' (PyStr ''B''), Save]
     (Model_init Article [(''name'', PyStr ''A'')]) empty_db = (Inr ex_instance, ex_db)"
  by (simp add: RevisedModel_save_def changed_def save_revision_def revision_model_save_def
      Model_save_revision_def Model_save_def record_model_values_def Model_init_def setattr_def
      Article_simps empty_db_def Let_def ex_instance_def ex_db_def ex_attrs_def ex_revision_def
      fun_eq_iff)

section \<open>Properties of the write-once save\<close>


lemma revision_model_save_pk_unset:
  "r_pk self = None \<Longrightarrow>
   revision_model_save cls self st =
     (Inr (self\<lparr>r_pk := Some (next_revision_pk st)\<rparr>),
      st\<lparr>revision_rows := revision_rows st @ [self\<lparr>r_pk := Some (next_revision_pk st)\<rparr>],
         next_revision_pk := Suc (next_revision_pk st)\<rparr>)"
  by (simp add: revision_model_save_def Model_save_revision_def Let_def)

lemma revision_model_save_not_a_number:
  "r_pk self = Some p \<Longrightarrow> (\<And>n. r_values self (revision_field_name (rc_settings cls)) \<noteq> PyInt n) \<Longrightarrow>
   revision_model_save cls self st = (Inl TypeError, st)"
  by (cases "r_values self (revision_field_name (rc_settings cls))")
     (auto simp: revision_model_save_def)








section \<open>Properties of change detection\<close>

lemma changed_loop_iff:
  "changed_loop a items = (\<exists>item \<in> set items. a (fst item) \<noteq> snd item)"
  by (induction items) auto

text \<open>
  C5, as amended. For an instance that has a Snapshot, \<open>changed\<close> returns
  normally, with true exactly when some entry of the Snapshot differs from the
  instance's current value of that field and with false otherwise. (An instance
  without a Snapshot is the counterexample below.)
\<close>

theorem changed_spec:
  "revised_initial_values self = Some initial_values \<Longrightarrow>
   changed self = Inr (\<exists>item \<in> set initial_values. attrs self (fst item) \<noteq> snd item)"
  by (simp add: changed_def changed_loop_iff)

theorem changed_spec_witness:
  "revised_initial_values (setattr ex_instance ''name'' (PyStr ''C'')) =
     Some [(''name'', PyStr ''B''), (''revision'', PyInt 2)] \<and>
   changed (setattr ex_instance ''name'' (PyStr ''C'')) = Inr True \<and>
   revised_initial_values (setattr ex_instance ''views'' (PyInt 9)) =
     Some [(''name'', PyStr ''B''), (''revision'', PyInt 2)] \<and>
   changed (setattr ex_instance ''views'' (PyInt 9)) = Inr False"
  using
    changed_spec [of "setattr ex_instance ''name'' (PyStr ''C'')"
      "[(''name'', PyStr ''B''), (''revision'', PyInt 2)]"]
    changed_spec [of "setattr ex_instance ''views'' (PyInt 9)"
      "[(''name'', PyStr ''B''), (''revision'', PyInt 2)]"]
  by (simp add: ex_instance_def ex_attrs_def setattr_def)

text \<open>
  C5, counterexample. On an instance that has no Snapshot, \<open>changed\<close> does not
  return false: reading \<open>_revised_initial_values\<close> raises
  \<open>AttributeError\<close>.
\<close>

theorem changed_without_snapshot_raises:
  "revised_initial_values (ex_instance\<lparr>revised_initial_values := None\<rparr>) = None \<and>
   changed (ex_instance\<lparr>revised_initial_values := None\<rparr>) =
     Inl (AttributeError ''_revised_initial_values'') \<and>
   changed (ex_instance\<lparr>revised_initial_values := None\<rparr>) \<noteq> Inr False"
  by (simp add: changed_def ex_instance_def)

section \<open>Properties of revert\<close>

lemma revert_loop_attrs:
  "attrs (revert_loop unrevised names old_revision self) f =
     (if f \<in> set names \<and> f \<notin> set unrevised then r_values old_revision f else attrs self f)"
  by (induction names arbitrary: self) (auto simp: setattr_def)

lemma revert_loop_frame:
  "pk (revert_loop unrevised names old_revision self) = pk self \<and>
   revised_initial_values (revert_loop unrevised names old_revision self) =
     revised_initial_values self"
  by (induction names arbitrary: self) (auto simp: setattr_def)

lemma related_get_none:
  "filter (\<lambda>r. r_values r name = v) (related_all st self) = [] \<Longrightarrow>
   related_get st self name v = Inl DoesNotExist"
  by (simp add: related_get_def)

lemma related_get_one:
  "filter (\<lambda>r. r_values r name = v) (related_all st self) = [old] \<Longrightarrow>
   related_get st self name v = Inr old"
  by (simp add: related_get_def)

lemma related_get_no_such_revision:
  "related_get st self name v \<noteq> Inl NoSuchRevision"
  by (simp add: related_get_def split: list.splits)

lemma metaclass_revision_field:
  "revision_field_name (settings (RevisedModelBase_new s declared repr_fn)) = revision_field_name s \<and>
   revision_field_name s \<in> fst ` set (meta_fields (RevisedModelBase_new s declared repr_fn)) \<and>
   (revision_field_name s \<notin> set (unrevised_fields s) \<longrightarrow>
      revision_field_name s \<in>
        set (revised_field_names (settings (RevisedModelBase_new s declared repr_fn))))"
  by (simp add: RevisedModelBase_new_def Let_def)

text \<open>
  C1, what the code does. When no History Record of the instance has the revision
  number \<open>n\<close>, \<open>revert_to_revision\<close> fails with the framework's
  \<open>DoesNotExist\<close>, which the query raises and nothing catches; and on no input
  at all does it fail with \<open>NoSuchRevision\<close>.
\<close>

theorem revert_to_revision_never_NoSuchRevision:
  "(filter (\<lambda>r. r_values r (revision_field_name (settings cls)) = PyInt n)
      (related_all st self) = [] \<longrightarrow>
    revert_to_revision cls self n st = Inl DoesNotExist) \<and>
   revert_to_revision cls self n st \<noteq> Inl NoSuchRevision"
proof (intro conjI impI)
  assume "filter (\<lambda>r. r_values r (revision_field_name (settings cls)) = PyInt n)
      (related_all st self) = []"
  then show "revert_to_revision cls self n st = Inl DoesNotExist"
    by (simp add: revert_to_revision_def related_get_none)
next
  show "revert_to_revision cls self n st \<noteq> Inl NoSuchRevision"
    using related_get_no_such_revision [of st self "revision_field_name (settings cls)" "PyInt n"]
    by (auto simp: revert_to_revision_def split: sum.splits)
qed

theorem revert_to_revision_never_NoSuchRevision_witness:
  "filter (\<lambda>r. r_values r (revision_field_name (settings Article)) = PyInt 7)
      (related_all ex_db ex_instance) = [] \<and>
   revert_to_revision Article ex_instance 7 ex_db = Inl DoesNotExist \<and>
   revert_to_revision Article ex_instance 7 ex_db \<noteq> Inl NoSuchRevision"
  using revert_to_revision_never_NoSuchRevision [of Article 7 ex_db ex_instance]
  by (simp add: Article_simps related_all_def ex_db_def ex_instance_def ex_revision_def)

text \<open>
  C2, as amended. When exactly one History Record \<open>old\<close> of the instance has
  the revision number \<open>n\<close>, \<open>revert_to_revision\<close> returns the instance with
  every field of the type that is not in \<open>unrevised_fields\<close> set to the value
  \<open>old\<close> has for it, and every other attribute, the primary key and the
  Snapshot as they were. The revision-number field is one of the fields of the
  type, so unless it is listed in \<open>unrevised_fields\<close> it is set as well, to
  \<open>n\<close>. The result is the instance in memory; the operation has no store to
  return, so nothing is persisted and no History Record is deleted.
\<close>

theorem revert_to_revision_effect:
  "filter (\<lambda>r. r_values r (revision_field_name (settings cls)) = PyInt n)
     (related_all st self) = [old] \<Longrightarrow>
   (\<exists>self'.
      revert_to_revision cls self n st = Inr self' \<and>
      (\<forall>f. attrs self' f =
         (if f \<in> fst ` set (meta_fields cls) \<and> f \<notin> set (unrevised_fields (settings cls))
          then r_values old f else attrs self f)) \<and>
      (revision_field_name (settings cls) \<in> fst ` set (meta_fields cls) \<and>
       revision_field_name (settings cls) \<notin> set (unrevised_fields (settings cls)) \<longrightarrow>
         attrs self' (revision_field_name (settings cls)) = PyInt n) \<and>
      pk self' = pk self \<and>
      revised_initial_values self' = revised_initial_values self)"
proof -
  assume one: "filter (\<lambda>r. r_values r (revision_field_name (settings cls)) = PyInt n)
     (related_all st self) = [old]"
  let ?self' = "revert_loop (unrevised_fields (settings cls)) (map fst (meta_fields cls)) old self"
  have res: "revert_to_revision cls self n st = Inr ?self'"
    using one by (simp add: revert_to_revision_def related_get_one)
  have "old \<in> set (filter (\<lambda>r. r_values r (revision_field_name (settings cls)) = PyInt n)
     (related_all st self))"
    using one by simp
  then have num: "r_values old (revision_field_name (settings cls)) = PyInt n"
    by simp
  have vals: "\<forall>f. attrs ?self' f =
         (if f \<in> fst ` set (meta_fields cls) \<and> f \<notin> set (unrevised_fields (settings cls))
          then r_values old f else attrs self f)"
    by (simp add: revert_loop_attrs)
  have "revision_field_name (settings cls) \<in> fst ` set (meta_fields cls) \<and>
       revision_field_name (settings cls) \<notin> set (unrevised_fields (settings cls)) \<longrightarrow>
         attrs ?self' (revision_field_name (settings cls)) = PyInt n"
    using vals num by simp
  with res vals revert_loop_frame [of "unrevised_fields (settings cls)"
      "map fst (meta_fields cls)" old self]
  show ?thesis by blast
qed

theorem revert_to_revision_effect_witness:
  "filter (\<lambda>r. r_values r (revision_field_name (settings Article)) = PyInt 1)
     (related_all ex_db ex_instance) = [ex_revision (Some 1) ''A'' 1 1] \<and>
   (\<exists>self'.
      revert_to_revision Article ex_instance 1 ex_db = Inr self' \<and>
      attrs self' ''name'' = PyStr ''A'' \<and>
      attrs self' ''views'' = PyInt 0 \<and>
      attrs self' ''revision'' = PyInt 1 \<and>
      pk self' = Some 1 \<and>
      revised_initial_values self' = Some [(''name'', PyStr ''B''), (''revision'', PyInt 2)])"
proof -
  have one: "filter (\<lambda>r. r_values r (revision_field_name (settings Article)) = PyInt 1)
     (related_all ex_db ex_instance) = [ex_revision (Some 1) ''A'' 1 1]"
    by (simp add: Article_simps related_all_def ex_db_def ex_instance_def ex_revision_def)
  from revert_to_revision_effect [OF one] obtain self' where
    res: "revert_to_revision Article ex_instance 1 ex_db = Inr self'"
    and vals: "\<forall>f. attrs self' f =
         (if f \<in> fst ` set (meta_fields Article) \<and> f \<notin> set (unrevised_fields (settings Article))
          then r_values (ex_revision (Some 1) ''A'' 1 1) f else attrs ex_instance f)"
    and frame: "pk self' = pk ex_instance"
      "revised_initial_values self' = revised_initial_values ex_instance"
    by blast
  have "attrs self' ''name'' = PyStr ''A''" "attrs self' ''views'' = PyInt 0"
    "attrs self' ''revision'' = PyInt 1"
    using vals by (simp_all add: Article_simps ex_revision_def ex_instance_def ex_attrs_def)
  moreover have "pk self' = Some 1"
    "revised_initial_values self' = Some [(''name'', PyStr ''B''), (''revision'', PyInt 2)]"
    using frame by (simp_all add: ex_instance_def)
  ultimately show ?thesis using one res by simp
qed

text \<open>
  C2, counterexample. The instance of the scenario is at revision 2 and has one
  History Record, of revision 1. Reverting to revision 1 succeeds and changes
  the revision-number field of the instance from 2 to 1.
\<close>

theorem revert_to_revision_overwrites_revision_field:
  "attrs ex_instance ''revision'' = PyInt 2 \<and>
   map_sum id (\<lambda>self'. attrs self' ''revision'') (revert_to_revision Article ex_instance 1 ex_db)
     = Inr (PyInt 1)"
  by (simp add: revert_to_revision_def related_get_def related_all_def setattr_def
      Article_simps ex_db_def ex_instance_def ex_revision_def ex_attrs_def)

section \<open>Properties of save\<close>

lemma save_revision_ok:
  "revised_initial_values self = Some snap \<Longrightarrow>
   map_of snap (revision_field_name (settings cls)) = Some v \<Longrightarrow>
   save_revision cls self st =
     (Inr v,
      st\<lparr>revision_rows := revision_rows st @
            [\<lparr>r_pk = Some (next_revision_pk st),
              r_values = (\<lambda>name. case map_of snap name of Some v \<Rightarrow> v | None \<Rightarrow> PyNone),
              r_owner = pk self\<rparr>],
         next_revision_pk := Suc (next_revision_pk st)\<rparr>)"
  by (simp add: save_revision_def revision_model_save_pk_unset)



lemma Model_save_revision_rows:
  "revision_rows (snd (Model_save cls self st)) = revision_rows st"
  by (simp add: Model_save_def Let_def)





section \<open>Properties of delete\<close>

lemma delete_loop_filter:
  "delete_loop xs st =
     st\<lparr>revision_rows := filter (\<lambda>r. r_pk r \<notin> r_pk ` set xs) (revision_rows st)\<rparr>"
proof (induction xs arbitrary: st)
  case Nil
  show ?case by simp
next
  case (Cons x xs)
  have "filter (\<lambda>r. r_pk r \<notin> r_pk ` set xs) (filter (\<lambda>r. r_pk r \<noteq> r_pk x) (revision_rows st)) =
        filter (\<lambda>r. r_pk r \<notin> r_pk ` set (x # xs)) (revision_rows st)"
    by (induction "revision_rows st") auto
  then show ?case
    by (simp add: Cons.IH Model_delete_revision_def)
qed

lemma related_all_after_delete_loop:
  "related_all
     (st\<lparr>revision_rows :=
           filter (\<lambda>r. r_pk r \<notin> r_pk ` set (related_all st self)) (revision_rows st)\<rparr>) self = []"
  by (auto simp: related_all_def filter_empty_conv split: option.splits)

lemma Model_delete_effect:
  "pk self = Some p \<Longrightarrow>
   Model_delete self st =
     (Inr (),
      st\<lparr>revision_rows := filter (\<lambda>r. r_owner r \<noteq> Some p) (revision_rows st),
         instance_rows := AList.delete p (instance_rows st)\<rparr>)"
  by (simp add: Model_delete_def)

text \<open>
  With \<open>deep\<close> true, \<open>delete\<close> removes the rows of the History Records of
  the instance one by one, archives nothing, and then deletes the instance; no
  History Record of the instance is left and the row of the instance is gone.
\<close>

lemma RevisedModel_delete_deep:
  assumes "pk self = Some p"
  shows "RevisedModel_delete cls self True st =
     (Inr (),
      st\<lparr>revision_rows :=
           filter (\<lambda>r. r_owner r \<noteq> Some p)
             (filter (\<lambda>r. r_pk r \<notin> r_pk ` set (related_all st self)) (revision_rows st)),
         instance_rows := AList.delete p (instance_rows st)\<rparr>)"
    and "related_all (snd (RevisedModel_delete cls self True st)) self = []"
    and "map_of (instance_rows (snd (RevisedModel_delete cls self True st))) p = None"
    and "length (revision_rows (snd (RevisedModel_delete cls self True st)))
           \<le> length (revision_rows st)"
proof -
  show res: "RevisedModel_delete cls self True st =
     (Inr (),
      st\<lparr>revision_rows :=
           filter (\<lambda>r. r_owner r \<noteq> Some p)
             (filter (\<lambda>r. r_pk r \<notin> r_pk ` set (related_all st self)) (revision_rows st)),
         instance_rows := AList.delete p (instance_rows st)\<rparr>)"
    using assms by (simp add: RevisedModel_delete_def delete_loop_filter Model_delete_def)
  show "related_all (snd (RevisedModel_delete cls self True st)) self = []"
    unfolding res using assms by (simp add: related_all_def filter_empty_conv)
  show "map_of (instance_rows (snd (RevisedModel_delete cls self True st))) p = None"
    unfolding res by (simp add: delete_conv')
  have "length (filter (\<lambda>r. r_owner r \<noteq> Some p)
             (filter (\<lambda>r. r_pk r \<notin> r_pk ` set (related_all st self)) (revision_rows st)))
        \<le> length (filter (\<lambda>r. r_pk r \<notin> r_pk ` set (related_all st self)) (revision_rows st))"
    by (rule length_filter_le)
  also have "\<dots> \<le> length (revision_rows st)"
    by (rule length_filter_le)
  finally show "length (revision_rows (snd (RevisedModel_delete cls self True st)))
           \<le> length (revision_rows st)"
    unfolding res by simp
qed

text \<open>
  With \<open>deep\<close> false, for an instance whose Snapshot names the revision-number
  field, \<open>delete\<close> archives the Snapshot and then deletes the instance; the
  framework's delete takes every History Record that refers to the instance with
  it, the one just archived included.
\<close>

lemma RevisedModel_delete_shallow:
  assumes "pk self = Some p" and "revised_initial_values self = Some snap"
    and "map_of snap (revision_field_name (settings cls)) = Some v"
  shows "RevisedModel_delete cls self False st =
     (Inr (),
      st\<lparr>revision_rows := filter (\<lambda>r. r_owner r \<noteq> Some p) (revision_rows st),
         next_revision_pk := Suc (next_revision_pk st),
         instance_rows := AList.delete p (instance_rows st)\<rparr>)"
    and "related_all (snd (RevisedModel_delete cls self False st)) self = []"
proof -
  show res: "RevisedModel_delete cls self False st =
     (Inr (),
      st\<lparr>revision_rows := filter (\<lambda>r. r_owner r \<noteq> Some p) (revision_rows st),
         next_revision_pk := Suc (next_revision_pk st),
         instance_rows := AList.delete p (instance_rows st)\<rparr>)"
    using assms save_revision_ok [OF assms(2) assms(3), of st]
    by (simp add: RevisedModel_delete_def Model_delete_def)
  show "related_all (snd (RevisedModel_delete cls self False st)) self = []"
    unfolding res using assms(1) by (simp add: related_all_def filter_empty_conv)
qed

text \<open>
  C8, what the code does. The instance of the scenario has the primary key 1
  and one History Record, of revision 1, in the store. Archiving its Snapshot
  adds a second History Record, of revision 2. \<open>delete\<close> with \<open>deep\<close> false
  does that and then deletes the instance, and returns normally with a store that
  holds no History Record at all: neither the final one nor the prior one is left
  in place.
\<close>

theorem RevisedModel_delete_shallow_loses_history:
  "map (\<lambda>r. (r_pk r, r_owner r, map (r_values r) [''name'', ''revision'']))
     (revision_rows ex_db) = [(Some 1, Some 1, [PyStr ''A'', PyInt 1])] \<and>
   (case save_revision Article ex_instance ex_db of
      (res, st') \<Rightarrow>
        res = Inr (PyInt 2) \<and>
        map (\<lambda>r. (r_pk r, r_owner r, map (r_values r) [''name'', ''revision'']))
          (revision_rows st') =
          [(Some 1, Some 1, [PyStr ''A'', PyInt 1]), (Some 2, Some 1, [PyStr ''B'', PyInt 2])]) \<and>
   RevisedModel_delete Article ex_instance False ex_db =
     (Inr (), \<lparr>instance_rows = [], revision_rows = [], next_pk = 2, next_revision_pk = 3\<rparr>)"
  by (simp add: RevisedModel_delete_def Model_delete_def save_revision_def
      revision_model_save_def Model_save_revision_def Article_simps
      ex_instance_def ex_db_def ex_revision_def Let_def)

section \<open>Properties of the settings resolver\<close>

lemma getattr_default_after_delete:
  "k \<noteq> n \<Longrightarrow>
   getattr_default (opts\<lparr>own := AList.delete n (own opts)\<rparr>) k d = getattr_default opts k d"
  by (cases "map_of (own opts) k") (simp_all add: getattr_default_def)

lemma delattr_own:
  "map_of (own opts) n \<noteq> None \<Longrightarrow>
   delattr opts n = Inr (opts\<lparr>own := AList.delete n (own opts)\<rparr>)"
  by (auto simp: delattr_def)

lemma delattr_not_own:
  "map_of (own opts) n = None \<Longrightarrow> delattr opts n = Inl (AttributeError n)"
  by (simp add: delattr_def)

lemma settings_loop_spec:
  assumes "distinct names"
    and "\<forall>k \<in> set names. \<not> startswith_underscore k \<longrightarrow>
           truthy (getattr_default opts k (ObjBool False)) \<longrightarrow> map_of (own opts) k \<noteq> None"
  shows "\<exists>s' opts'.
     settings_loop names s opts = Inr (s', opts') \<and>
     (\<forall>k. map_of s' k =
        (if k \<in> set names \<and> \<not> startswith_underscore k \<and>
            truthy (getattr_default opts k (ObjBool False))
         then Some (getattr_default opts k (ObjBool False)) else map_of s k)) \<and>
     (\<forall>k. map_of (own opts') k =
        (if k \<in> set names \<and> \<not> startswith_underscore k \<and>
            truthy (getattr_default opts k (ObjBool False))
         then None else map_of (own opts) k)) \<and>
     inherited opts' = inherited opts"
  using assms
proof (induction names arbitrary: s opts)
  case Nil
  show ?case by simp
next
  case (Cons n ns)
  let ?g = "\<lambda>blk k. getattr_default blk k (ObjBool False)"
  have fresh: "n \<notin> set ns" and dist: "distinct ns"
    using Cons.prems(1) by simp_all
  show ?case
  proof (cases "\<not> startswith_underscore n \<and> truthy (?g opts n)")
    case False
    have step: "settings_loop (n # ns) s opts = settings_loop ns s opts"
      using False by (auto simp: Let_def)
    have "\<forall>k \<in> set ns. \<not> startswith_underscore k \<longrightarrow>
           truthy (?g opts k) \<longrightarrow> map_of (own opts) k \<noteq> None"
      using Cons.prems(2) by simp
    from Cons.IH [OF dist this, of s] obtain s' opts' where
      res: "settings_loop ns s opts = Inr (s', opts')"
      and vals: "\<forall>k. map_of s' k =
        (if k \<in> set ns \<and> \<not> startswith_underscore k \<and> truthy (?g opts k)
         then Some (?g opts k) else map_of s k)"
      and block: "\<forall>k. map_of (own opts') k =
        (if k \<in> set ns \<and> \<not> startswith_underscore k \<and> truthy (?g opts k)
         then None else map_of (own opts) k)"
      and inh: "inherited opts' = inherited opts"
      by blast
    have "\<forall>k. map_of s' k =
        (if k \<in> set (n # ns) \<and> \<not> startswith_underscore k \<and> truthy (?g opts k)
         then Some (?g opts k) else map_of s k)"
      using vals False by auto
    moreover have "\<forall>k. map_of (own opts') k =
        (if k \<in> set (n # ns) \<and> \<not> startswith_underscore k \<and> truthy (?g opts k)
         then None else map_of (own opts) k)"
      using block False by auto
    ultimately show ?thesis
      using step res inh by simp
  next
    case True
    let ?opts1 = "opts\<lparr>own := AList.delete n (own opts)\<rparr>"
    let ?s1 = "AList.update n (?g opts n) s"
    have owned: "map_of (own opts) n \<noteq> None"
      using Cons.prems(2) True by simp
    have step: "settings_loop (n # ns) s opts = settings_loop ns ?s1 ?opts1"
      using True delattr_own [OF owned] by (simp add: Let_def)
    have same: "\<forall>k \<in> set ns. ?g ?opts1 k = ?g opts k"
    proof
      fix k assume "k \<in> set ns"
      with fresh have "k \<noteq> n" by auto
      then show "?g ?opts1 k = ?g opts k"
        by (rule getattr_default_after_delete)
    qed
    have "\<forall>k \<in> set ns. \<not> startswith_underscore k \<longrightarrow>
           truthy (?g ?opts1 k) \<longrightarrow> map_of (own ?opts1) k \<noteq> None"
    proof (intro ballI impI)
      fix k assume k: "k \<in> set ns" "\<not> startswith_underscore k" "truthy (?g ?opts1 k)"
      then have "k \<noteq> n" using fresh by auto
      moreover have "map_of (own opts) k \<noteq> None"
        using Cons.prems(2) k same by simp
      ultimately show "map_of (own ?opts1) k \<noteq> None" by simp
    qed
    from Cons.IH [OF dist this, of ?s1] obtain s' opts' where
      res: "settings_loop ns ?s1 ?opts1 = Inr (s', opts')"
      and vals: "\<forall>k. map_of s' k =
        (if k \<in> set ns \<and> \<not> startswith_underscore k \<and> truthy (?g ?opts1 k)
         then Some (?g ?opts1 k) else map_of ?s1 k)"
      and block: "\<forall>k. map_of (own opts') k =
        (if k \<in> set ns \<and> \<not> startswith_underscore k \<and> truthy (?g ?opts1 k)
         then None else map_of (own ?opts1) k)"
      and inh: "inherited opts' = inherited ?opts1"
      by blast
    have "\<forall>k. map_of s' k =
        (if k \<in> set (n # ns) \<and> \<not> startswith_underscore k \<and> truthy (?g opts k)
         then Some (?g opts k) else map_of s k)"
      using vals same True fresh by (auto simp: update_conv')
    moreover have "\<forall>k. map_of (own opts') k =
        (if k \<in> set (n # ns) \<and> \<not> startswith_underscore k \<and> truthy (?g opts k)
         then None else map_of (own opts) k)"
      using block same True fresh by (auto simp: delete_conv')
    ultimately show ?thesis
      using step res inh by simp
  qed
qed

lemma distinct_dir_settings: "distinct dir_settings"
  by (simp add: dir_settings_def)

lemma setting_names:
  "filter (\<lambda>k. \<not> startswith_underscore k) dir_settings =
     [''RevisedAdmin'', ''foreign_key_field_name'', ''register_with_admin_site'',
      ''related_name'', ''revision_field_name'', ''revision_model_name'', ''unrevised_fields'']"
  by (simp add: dir_settings_def startswith_underscore_def)

lemma default_settings_names:
  "map fst (default_settings name) =
     [''foreign_key_field_name'', ''related_name'', ''revision_field_name'',
      ''revision_model_name'', ''unrevised_fields'', ''register_with_admin_site'',
      ''RevisedAdmin'']"
  by (simp add: default_settings_def)

lemma default_settings_keys:
  "map_of (default_settings name) k \<noteq> None \<longleftrightarrow>
     k \<in> set dir_settings \<and> \<not> startswith_underscore k"
proof -
  have "set (map fst (default_settings name)) =
        set (filter (\<lambda>k. \<not> startswith_underscore k) dir_settings)"
    unfolding setting_names default_settings_names by (simp add: insert_commute)
  then have "k \<in> set (map fst (default_settings name)) \<longleftrightarrow>
        k \<in> set (filter (\<lambda>k. \<not> startswith_underscore k) dir_settings)"
    by (rule arg_cong)
  then show ?thesis
    by (simp add: map_of_eq_None_iff)
qed

text \<open>
  C6, as amended. Without a configuration block the resolver returns the
  defaults: the type name in lower case, \<open>revisions\<close>, \<open>revision\<close>, the type
  name followed by \<open>Revision\<close>, no unrevised fields, and no registration with
  the admin site. With a block in which every setting that has a truthy value is
  an attribute of the block itself, it returns normally; each setting whose
  attribute is truthy takes that value and the attribute is removed from the
  block; each setting whose attribute is absent or falsy keeps its default, and
  the block keeps every other attribute, a falsy one of a setting's name
  included.
\<close>

theorem RevisedSettings_spec:
  "RevisedSettings name None = Inr (default_settings name, None) \<and>
   map_of (default_settings name) ''foreign_key_field_name'' = Some (ObjStr (lower name)) \<and>
   map_of (default_settings name) ''related_name'' = Some (ObjStr ''revisions'') \<and>
   map_of (default_settings name) ''revision_field_name'' = Some (ObjStr ''revision'') \<and>
   map_of (default_settings name) ''revision_model_name'' = Some (ObjStr (name @ ''Revision'')) \<and>
   map_of (default_settings name) ''unrevised_fields'' = Some (ObjTuple []) \<and>
   map_of (default_settings name) ''register_with_admin_site'' = Some (ObjBool False) \<and>
   ((\<forall>k \<in> set dir_settings. \<not> startswith_underscore k \<longrightarrow>
        truthy (getattr_default opts k (ObjBool False)) \<longrightarrow> map_of (own opts) k \<noteq> None) \<longrightarrow>
    (\<exists>s' opts'.
       RevisedSettings name (Some opts) = Inr (s', Some opts') \<and>
       (\<forall>k. map_of s' k =
          (if map_of (default_settings name) k \<noteq> None \<and>
              truthy (getattr_default opts k (ObjBool False))
           then Some (getattr_default opts k (ObjBool False))
           else map_of (default_settings name) k)) \<and>
       (\<forall>k. map_of (own opts') k =
          (if map_of (default_settings name) k \<noteq> None \<and>
              truthy (getattr_default opts k (ObjBool False))
           then None else map_of (own opts) k)) \<and>
       inherited opts' = inherited opts))"
proof -
  have dflt: "RevisedSettings name None = Inr (default_settings name, None)"
    by (simp add: RevisedSettings_def)
  have loop: "\<exists>s' opts'.
       RevisedSettings name (Some opts) = Inr (s', Some opts') \<and>
       (\<forall>k. map_of s' k =
          (if map_of (default_settings name) k \<noteq> None \<and>
              truthy (getattr_default opts k (ObjBool False))
           then Some (getattr_default opts k (ObjBool False))
           else map_of (default_settings name) k)) \<and>
       (\<forall>k. map_of (own opts') k =
          (if map_of (default_settings name) k \<noteq> None \<and>
              truthy (getattr_default opts k (ObjBool False))
           then None else map_of (own opts) k)) \<and>
       inherited opts' = inherited opts"
    if own: "\<forall>k \<in> set dir_settings. \<not> startswith_underscore k \<longrightarrow>
        truthy (getattr_default opts k (ObjBool False)) \<longrightarrow> map_of (own opts) k \<noteq> None"
  proof -
    from settings_loop_spec [OF distinct_dir_settings own, of "default_settings name"]
    obtain s' opts' where
      res: "settings_loop dir_settings (default_settings name) opts = Inr (s', opts')"
      and vals: "\<forall>k. map_of s' k =
        (if k \<in> set dir_settings \<and> \<not> startswith_underscore k \<and>
            truthy (getattr_default opts k (ObjBool False))
         then Some (getattr_default opts k (ObjBool False))
         else map_of (default_settings name) k)"
      and block: "\<forall>k. map_of (own opts') k =
        (if k \<in> set dir_settings \<and> \<not> startswith_underscore k \<and>
            truthy (getattr_default opts k (ObjBool False))
         then None else map_of (own opts) k)"
      and inh: "inherited opts' = inherited opts"
      by blast
    have r: "RevisedSettings name (Some opts) = Inr (s', Some opts')"
      using res by (simp add: RevisedSettings_def)
    have v: "\<forall>k. map_of s' k =
          (if map_of (default_settings name) k \<noteq> None \<and>
              truthy (getattr_default opts k (ObjBool False))
           then Some (getattr_default opts k (ObjBool False))
           else map_of (default_settings name) k)"
      unfolding default_settings_keys [of name] using vals by simp
    have b: "\<forall>k. map_of (own opts') k =
          (if map_of (default_settings name) k \<noteq> None \<and>
              truthy (getattr_default opts k (ObjBool False))
           then None else map_of (own opts) k)"
      unfolding default_settings_keys [of name] using block by simp
    show ?thesis
      by (rule exI [of _ s'], rule exI [of _ opts']) (intro conjI r v b inh)
  qed
  have d: "map_of (default_settings name) ''foreign_key_field_name'' = Some (ObjStr (lower name))"
    "map_of (default_settings name) ''related_name'' = Some (ObjStr ''revisions'')"
    "map_of (default_settings name) ''revision_field_name'' = Some (ObjStr ''revision'')"
    "map_of (default_settings name) ''revision_model_name'' = Some (ObjStr (name @ ''Revision''))"
    "map_of (default_settings name) ''unrevised_fields'' = Some (ObjTuple [])"
    "map_of (default_settings name) ''register_with_admin_site'' = Some (ObjBool False)"
    by (simp_all add: default_settings_def)
  show ?thesis
    by (intro conjI impI dflt d loop)
qed

theorem RevisedSettings_spec_witness:
  "\<exists>s' opts'.
     RevisedSettings ''Article''
       (Some \<lparr>own = [(''db_table'', ObjStr ''articles''), (''related_name'', ObjStr ''history''),
                     (''register_with_admin_site'', ObjBool False)],
              inherited = [(''ordering'', ObjStr ''name'')]\<rparr>) = Inr (s', Some opts') \<and>
     map_of s' ''related_name'' = Some (ObjStr ''history'') \<and>
     map_of s' ''foreign_key_field_name'' = Some (ObjStr ''article'') \<and>
     map_of s' ''register_with_admin_site'' = Some (ObjBool False) \<and>
     map_of (own opts') ''related_name'' = None \<and>
     map_of (own opts') ''register_with_admin_site'' = Some (ObjBool False) \<and>
     map_of (own opts') ''db_table'' = Some (ObjStr ''articles'') \<and>
     inherited opts' = [(''ordering'', ObjStr ''name'')]"
proof -
  let ?opts = "\<lparr>own = [(''db_table'', ObjStr ''articles''), (''related_name'', ObjStr ''history''),
                     (''register_with_admin_site'', ObjBool False)],
              inherited = [(''ordering'', ObjStr ''name'')]\<rparr>"
  have own: "\<forall>k \<in> set dir_settings. \<not> startswith_underscore k \<longrightarrow>
        truthy (getattr_default ?opts k (ObjBool False)) \<longrightarrow> map_of (own ?opts) k \<noteq> None"
    by (simp add: dir_settings_def getattr_default_def)
  have lw: "lower ''Article'' = ''article''"
    by (simp add: lower_def lower_char_def)
  from RevisedSettings_spec [of "''Article''" ?opts] own
  obtain s' opts' where
    res: "RevisedSettings ''Article'' (Some ?opts) = Inr (s', Some opts')"
    and vals: "\<forall>k. map_of s' k =
          (if map_of (default_settings ''Article'') k \<noteq> None \<and>
              truthy (getattr_default ?opts k (ObjBool False))
           then Some (getattr_default ?opts k (ObjBool False))
           else map_of (default_settings ''Article'') k)"
    and block: "\<forall>k. map_of (own opts') k =
          (if map_of (default_settings ''Article'') k \<noteq> None \<and>
              truthy (getattr_default ?opts k (ObjBool False))
           then None else map_of (own ?opts) k)"
    and inh: "inherited opts' = inherited ?opts"
    by blast
  have "map_of s' ''related_name'' = Some (ObjStr ''history'')"
    "map_of s' ''foreign_key_field_name'' = Some (ObjStr ''article'')"
    "map_of s' ''register_with_admin_site'' = Some (ObjBool False)"
    using vals by (simp_all add: default_settings_def getattr_default_def lw)
  moreover have "map_of (own opts') ''related_name'' = None"
    "map_of (own opts') ''register_with_admin_site'' = Some (ObjBool False)"
    "map_of (own opts') ''db_table'' = Some (ObjStr ''articles'')"
    using block by (simp_all add: default_settings_def getattr_default_def)
  moreover have "inherited opts' = [(''ordering'', ObjStr ''name'')]"
    using inh by simp
  ultimately show ?thesis
    using res by (intro exI [of _ s'] exI [of _ opts']) simp
qed

text \<open>
  C6, counterexample. An attribute \<open>register_with_admin_site = False\<close> of the
  block is present and has the name of a setting, and it is still on the block
  when the resolver returns. And a block that only inherits a truthy
  \<open>related_name\<close> from a base class makes the resolver fail: \<open>delattr\<close>
  raises \<open>AttributeError\<close>.
\<close>

theorem RevisedSettings_keeps_falsy_and_can_fail:
  "RevisedSettings ''Article''
     (Some \<lparr>own = [(''register_with_admin_site'', ObjBool False)], inherited = []\<rparr>) =
     Inr (default_settings ''Article'',
          Some \<lparr>own = [(''register_with_admin_site'', ObjBool False)], inherited = []\<rparr>) \<and>
   RevisedSettings ''Article''
     (Some \<lparr>own = [], inherited = [(''related_name'', ObjStr ''history'')]\<rparr>) =
     Inl (AttributeError ''related_name'')"
  by (simp add: RevisedSettings_def dir_settings_def startswith_underscore_def
      getattr_default_def delattr_def)

section \<open>Properties of sequences of operations\<close>

lemma map_of_snapshot:
  "map_of (map (\<lambda>f. (f, a f)) names) k = (if k \<in> set names then Some (a k) else None)"
  by (induction names) auto

lemma Model_save_result:
  "Model_save cls self st = (self', st') \<Longrightarrow>
   revised_initial_values self' =
     Some (map (\<lambda>f. (f, attrs self f)) (revised_field_names (settings cls))) \<and>
   attrs self' = attrs self \<and>
   pk self' \<noteq> None \<and>
   (pk self \<noteq> None \<longrightarrow> pk self' = pk self) \<and>
   revision_rows st' = revision_rows st"
  by (auto simp: Model_save_def record_model_values_def Let_def)

lemma RevisedModel_save_cases:
  assumes "RevisedModel_save cls self st = (Inr self', st')"
  shows "((pk self = None \<or> changed self = Inr False) \<and> Model_save cls self st = (self', st')) \<or>
     (\<exists>snap n.
        pk self \<noteq> None \<and> changed self = Inr True \<and>
        revised_initial_values self = Some snap \<and>
        map_of snap (revision_field_name (settings cls)) = Some (PyInt n) \<and>
        Model_save cls (setattr self (revision_field_name (settings cls)) (PyInt (n + 1)))
          (st\<lparr>revision_rows := revision_rows st @
                [\<lparr>r_pk = Some (next_revision_pk st),
                  r_values = (\<lambda>name. case map_of snap name of Some v \<Rightarrow> v | None \<Rightarrow> PyNone),
                  r_owner = pk self\<rparr>],
              next_revision_pk := Suc (next_revision_pk st)\<rparr>) = (self', st'))"
proof (cases "pk self = None")
  case True
  then show ?thesis
    using assms by (auto simp: RevisedModel_save_def split: prod.splits)
next
  case False
  show ?thesis
  proof (cases "changed self")
    case (Inl e)
    then show ?thesis
      using assms False by (simp add: RevisedModel_save_def)
  next
    case (Inr b)
    show ?thesis
    proof (cases b)
      case False
      then show ?thesis
        using assms Inr \<open>pk self \<noteq> None\<close> by (auto simp: RevisedModel_save_def split: prod.splits)
    next
      case True
      from Inr obtain snap where snap: "revised_initial_values self = Some snap"
        by (auto simp: changed_def split: option.splits)
      show ?thesis
      proof (cases "map_of snap (revision_field_name (settings cls))")
        case None
        then show ?thesis
          using assms Inr True snap \<open>pk self \<noteq> None\<close>
          by (simp add: RevisedModel_save_def save_revision_def revision_model_save_pk_unset)
      next
        case (Some v)
        note arch = save_revision_ok [OF snap Some, of st]
        show ?thesis
        proof (cases v)
          case (PyInt n)
          then show ?thesis
            using assms Inr True snap Some arch \<open>pk self \<noteq> None\<close>
            by (auto simp: RevisedModel_save_def split: prod.splits)
        qed (use assms Inr True snap Some arch \<open>pk self \<noteq> None\<close>
              in \<open>simp_all add: RevisedModel_save_def\<close>)
      qed
    qed
  qed
qed

text \<open>One save under the invariant: either nothing is archived or exactly \<open>k\<close> is.\<close>

lemma save_step:
  assumes save: "RevisedModel_save cls self st = (Inr self1, st1)"
    and inv: "snapshot_at cls self k" and persisted: "pk self \<noteq> None"
  shows "pk self1 = pk self \<and>
     ((revision_rows st1 = revision_rows st \<and> snapshot_at cls self1 k) \<or>
      (\<exists>r. revision_rows st1 = revision_rows st @ [r] \<and>
           r_values r (revision_field_name (settings cls)) = PyInt k \<and>
           r_owner r = pk self \<and>
           snapshot_at cls self1 (k + 1)))"
proof -
  let ?rev = "revision_field_name (settings cls)"
  let ?names = "revised_field_names (settings cls)"
  from inv obtain a where
    snap: "revised_initial_values self = Some (map (\<lambda>f. (f, a f)) ?names)"
    and at: "?rev \<in> set ?names \<longrightarrow> a ?rev = PyInt k"
    by (auto simp: snapshot_at_def)
  from RevisedModel_save_cases [OF save] consider
    (plain) "pk self = None \<or> changed self = Inr False" "Model_save cls self st = (self1, st1)"
  | (archive) snap' n where "revised_initial_values self = Some snap'"
      "map_of snap' ?rev = Some (PyInt n)"
      "Model_save cls (setattr self ?rev (PyInt (n + 1)))
          (st\<lparr>revision_rows := revision_rows st @
                [\<lparr>r_pk = Some (next_revision_pk st),
                  r_values = (\<lambda>name. case map_of snap' name of Some v \<Rightarrow> v | None \<Rightarrow> PyNone),
                  r_owner = pk self\<rparr>],
              next_revision_pk := Suc (next_revision_pk st)\<rparr>) = (self1, st1)"
    by blast
  then show ?thesis
  proof cases
    case plain
    note same = plain(1) and ms = plain(2)
    from same persisted have "changed self = Inr False" by simp
    then have eq: "\<forall>f \<in> set ?names. attrs self f = a f"
      using snap by (auto simp: changed_def changed_loop_iff)
    have "map (\<lambda>f. (f, attrs self f)) ?names = map (\<lambda>f. (f, a f)) ?names"
      using eq by simp
    then have "snapshot_at cls self1 k"
      using Model_save_result [OF ms] at unfolding snapshot_at_def by auto
    then show ?thesis
      using Model_save_result [OF ms] persisted by simp
  next
    case archive
    note s' = archive(1) and num = archive(2) and ms = archive(3)
    let ?r = "\<lparr>r_pk = Some (next_revision_pk st),
                  r_values = (\<lambda>name. case map_of snap' name of Some v \<Rightarrow> v | None \<Rightarrow> PyNone),
                  r_owner = pk self\<rparr>"
    have s_eq: "snap' = map (\<lambda>f. (f, a f)) ?names"
      using snap s' by simp
    have revised: "?rev \<in> set ?names" and "a ?rev = PyInt n"
      using num unfolding s_eq map_of_snapshot by (auto split: if_splits)
    with at have nk: "n = k" by simp
    note res = Model_save_result [OF ms]
    have rows: "revision_rows st1 = revision_rows st @ [?r]"
      using res by simp
    have val: "r_values ?r ?rev = PyInt k"
      using num nk by simp
    have "revised_initial_values self1 =
        Some (map (\<lambda>f. (f, attrs (setattr self ?rev (PyInt (n + 1))) f)) ?names)"
      using res by simp
    moreover have "attrs (setattr self ?rev (PyInt (n + 1))) ?rev = PyInt (k + 1)"
      using nk by (simp add: setattr_def)
    ultimately have "snapshot_at cls self1 (k + 1)"
      unfolding snapshot_at_def by blast
    moreover have "pk self1 = pk self"
      using res persisted by (simp add: setattr_def)
    ultimately show ?thesis
      using rows val by auto
  qed
qed

lemma run_from_invariant:
  assumes "run cls ops self st = (Inr self', st')"
    and "snapshot_at cls self k" and "pk self \<noteq> None"
  shows "\<exists>new. revision_rows st' = revision_rows st @ new \<and>
     consecutive_from k (map (\<lambda>r. r_values r (revision_field_name (settings cls))) new) \<and>
     (\<forall>r \<in> set new. r_owner r = pk self') \<and> pk self' = pk self"
  using assms
proof (induction ops arbitrary: self st k)
  case Nil
  then show ?case by simp
next
  case (Cons op ops)
  show ?case
  proof (cases op)
    case (Mutate name v)
    have "snapshot_at cls (setattr self name v) k" "pk (setattr self name v) \<noteq> None"
      using Cons.prems by (simp_all add: snapshot_at_def setattr_def)
    moreover have "run cls ops (setattr self name v) st = (Inr self', st')"
      using Cons.prems(1) Mutate by simp
    ultimately show ?thesis
      using Cons.IH [of "setattr self name v" st k] by (simp add: setattr_def)
  next
    case Save
    from Cons.prems(1) Save obtain self1 st1 where
      save: "RevisedModel_save cls self st = (Inr self1, st1)"
      and rest: "run cls ops self1 st1 = (Inr self', st')"
      by (auto split: prod.splits sum.splits)
    from save_step [OF save Cons.prems(2) Cons.prems(3)]
    have pk1: "pk self1 = pk self"
      and alt: "(revision_rows st1 = revision_rows st \<and> snapshot_at cls self1 k) \<or>
        (\<exists>r. revision_rows st1 = revision_rows st @ [r] \<and>
           r_values r (revision_field_name (settings cls)) = PyInt k \<and>
           r_owner r = pk self \<and>
           snapshot_at cls self1 (k + 1))"
      by simp_all
    have p1: "pk self1 \<noteq> None" using pk1 Cons.prems(3) by simp
    from alt show ?thesis
    proof (elim disjE exE conjE)
      assume rows: "revision_rows st1 = revision_rows st" and inv: "snapshot_at cls self1 k"
      from Cons.IH [OF rest inv p1] show ?thesis
        using rows pk1 by simp
    next
      fix r
      assume rows: "revision_rows st1 = revision_rows st @ [r]"
        and val: "r_values r (revision_field_name (settings cls)) = PyInt k"
        and own: "r_owner r = pk self"
        and inv: "snapshot_at cls self1 (k + 1)"
      from Cons.IH [OF rest inv p1] obtain new where
        rows': "revision_rows st' = revision_rows st1 @ new"
        and cons: "consecutive_from (k + 1)
                     (map (\<lambda>r. r_values r (revision_field_name (settings cls))) new)"
        and owners: "\<forall>r \<in> set new. r_owner r = pk self'" and pk': "pk self' = pk self1"
        by blast
      have "revision_rows st' = revision_rows st @ (r # new)"
        using rows rows' by simp
      moreover have "consecutive_from k
          (map (\<lambda>r. r_values r (revision_field_name (settings cls))) (r # new))"
        using val cons by simp
      moreover have "\<forall>x \<in> set (r # new). r_owner x = pk self'"
        using owners own pk' pk1 by simp
      ultimately show ?thesis
        using pk' pk1 by (intro exI [of _ "r # new"]) simp
    qed
  qed
qed

lemma run_from_any_state:
  assumes "run cls ops self st = (Inr self', st')"
  shows "\<exists>new m. revision_rows st' = revision_rows st @ new \<and>
     consecutive_from m (map (\<lambda>r. r_values r (revision_field_name (settings cls))) new) \<and>
     (\<forall>r \<in> set new. r_owner r = pk self')"
  using assms
proof (induction ops arbitrary: self st)
  case Nil
  have "consecutive_from 0 (map (\<lambda>r. r_values r (revision_field_name (settings cls))) [])"
    by simp
  with Nil show ?case by auto
next
  case (Cons op ops)
  let ?rev = "revision_field_name (settings cls)"
  show ?case
  proof (cases op)
    case (Mutate name v)
    then have "run cls ops (setattr self name v) st = (Inr self', st')"
      using Cons.prems by simp
    from Cons.IH [OF this] show ?thesis .
  next
    case Save
    from Cons.prems Save obtain self1 st1 where
      save: "RevisedModel_save cls self st = (Inr self1, st1)"
      and rest: "run cls ops self1 st1 = (Inr self', st')"
      by (auto split: prod.splits sum.splits)
    from RevisedModel_save_cases [OF save] consider
      (plain) "Model_save cls self st = (self1, st1)"
    | (archive) snap n where "pk self \<noteq> None" "revised_initial_values self = Some snap"
        "map_of snap ?rev = Some (PyInt n)"
        "Model_save cls (setattr self ?rev (PyInt (n + 1)))
          (st\<lparr>revision_rows := revision_rows st @
                [\<lparr>r_pk = Some (next_revision_pk st),
                  r_values = (\<lambda>name. case map_of snap name of Some v \<Rightarrow> v | None \<Rightarrow> PyNone),
                  r_owner = pk self\<rparr>],
              next_revision_pk := Suc (next_revision_pk st)\<rparr>) = (self1, st1)"
      by blast
    then show ?thesis
    proof cases
      case plain
      from Cons.IH [OF rest] Model_save_result [OF plain] show ?thesis by simp
    next
      case archive
      let ?r = "\<lparr>r_pk = Some (next_revision_pk st),
                  r_values = (\<lambda>name. case map_of snap name of Some v \<Rightarrow> v | None \<Rightarrow> PyNone),
                  r_owner = pk self\<rparr>"
      note res = Model_save_result [OF archive(4)]
      have "attrs (setattr self ?rev (PyInt (n + 1))) ?rev = PyInt (n + 1)"
        by (simp add: setattr_def)
      then have inv: "snapshot_at cls self1 (n + 1)"
        using res unfolding snapshot_at_def by blast
      have pk1: "pk self1 = pk self" "pk self1 \<noteq> None"
        using res archive(1) by (simp_all add: setattr_def)
      from run_from_invariant [OF rest inv pk1(2)] obtain new where
        rows': "revision_rows st' = revision_rows st1 @ new"
        and cons: "consecutive_from (n + 1) (map (\<lambda>r. r_values r ?rev) new)"
        and owners: "\<forall>r \<in> set new. r_owner r = pk self'" and pk': "pk self' = pk self1"
        by blast
      have "revision_rows st' = revision_rows st @ (?r # new)"
        using rows' res by simp
      moreover have "consecutive_from n (map (\<lambda>r. r_values r ?rev) (?r # new))"
        using cons archive(3) by simp
      moreover have "\<forall>x \<in> set (?r # new). r_owner x = pk self'"
        using owners pk' pk1 by simp
      ultimately show ?thesis by blast
    qed
  qed
qed

lemma run_from_fresh_instance:
  assumes "run cls ops self st = (Inr self', st')"
    and "pk self = None"
    and "attrs self (revision_field_name (settings cls)) = PyInt 1"
    and "\<forall>v. Mutate (revision_field_name (settings cls)) v \<notin> set (takeWhile (\<lambda>op. op \<noteq> Save) ops)"
  shows "\<exists>new. revision_rows st' = revision_rows st @ new \<and>
     consecutive_from 1 (map (\<lambda>r. r_values r (revision_field_name (settings cls))) new)"
  using assms
proof (induction ops arbitrary: self st)
  case Nil
  then show ?case by simp
next
  case (Cons op ops)
  let ?rev = "revision_field_name (settings cls)"
  show ?case
  proof (cases op)
    case (Mutate name v)
    have ne: "name \<noteq> ?rev"
      using Cons.prems(4) Mutate by auto
    have "run cls ops (setattr self name v) st = (Inr self', st')"
      using Cons.prems(1) Mutate by simp
    moreover have "pk (setattr self name v) = None"
      using Cons.prems(2) by (simp add: setattr_def)
    moreover have "attrs (setattr self name v) ?rev = PyInt 1"
      using Cons.prems(3) ne by (simp add: setattr_def)
    moreover have "\<forall>v. Mutate ?rev v \<notin> set (takeWhile (\<lambda>op. op \<noteq> Save) ops)"
      using Cons.prems(4) Mutate by simp
    ultimately show ?thesis
      by (rule Cons.IH)
  next
    case Save
    from Cons.prems(1) Save obtain self1 st1 where
      save: "RevisedModel_save cls self st = (Inr self1, st1)"
      and rest: "run cls ops self1 st1 = (Inr self', st')"
      by (auto split: prod.splits sum.splits)
    have ms: "Model_save cls self st = (self1, st1)"
      using save Cons.prems(2) by (auto simp: RevisedModel_save_def split: prod.splits)
    note res = Model_save_result [OF ms]
    have inv: "snapshot_at cls self1 1"
      using res Cons.prems(3) unfolding snapshot_at_def by blast
    have "pk self1 \<noteq> None" using res by simp
    from run_from_invariant [OF rest inv this] show ?thesis
      using res by auto
  qed
qed

lemma save_succeeds:
  assumes "snapshot_at cls self k"
    and "revision_field_name (settings cls) \<in> set (revised_field_names (settings cls))"
  shows "\<exists>self1 st1. RevisedModel_save cls self st = (Inr self1, st1)"
proof -
  let ?rev = "revision_field_name (settings cls)"
  let ?names = "revised_field_names (settings cls)"
  from assms obtain a where
    snap: "revised_initial_values self = Some (map (\<lambda>f. (f, a f)) ?names)"
    and at: "a ?rev = PyInt k"
    by (auto simp: snapshot_at_def)
  have num: "map_of (map (\<lambda>f. (f, a f)) ?names) ?rev = Some (PyInt k)"
    using assms(2) at by (simp add: map_of_snapshot)
  have ch: "changed self = Inr (changed_loop (attrs self) (map (\<lambda>f. (f, a f)) ?names))"
    using snap by (simp add: changed_def)
  note arch = save_revision_ok [OF snap num, of st]
  show ?thesis
  proof (cases "pk self \<noteq> None \<and> changed_loop (attrs self) (map (\<lambda>f. (f, a f)) ?names)")
    case True
    obtain self1 st1 where
      "Model_save cls (setattr self ?rev (PyInt (k + 1)))
         (st\<lparr>revision_rows := revision_rows st @
               [\<lparr>r_pk = Some (next_revision_pk st),
                 r_values = (\<lambda>name. case map_of (map (\<lambda>f. (f, a f)) ?names) name of
                                     Some v \<Rightarrow> v | None \<Rightarrow> PyNone),
                 r_owner = pk self\<rparr>],
             next_revision_pk := Suc (next_revision_pk st)\<rparr>) = (self1, st1)"
      by (rule prod.exhaust)
    then have "RevisedModel_save cls self st = (Inr self1, st1)"
      using True ch arch by (simp add: RevisedModel_save_def)
    then show ?thesis by blast
  next
    case False
    obtain self1 st1 where "Model_save cls self st = (self1, st1)"
      by (rule prod.exhaust)
    then have "RevisedModel_save cls self st = (Inr self1, st1)"
      using False ch by (auto simp: RevisedModel_save_def)
    then show ?thesis by blast
  qed
qed

lemma run_succeeds_from_invariant:
  assumes "snapshot_at cls self k" and "pk self \<noteq> None"
    and "revision_field_name (settings cls) \<in> set (revised_field_names (settings cls))"
  shows "\<exists>self' st'. run cls ops self st = (Inr self', st')"
  using assms(1,2)
proof (induction ops arbitrary: self st k)
  case Nil
  show ?case by simp
next
  case (Cons op ops)
  show ?case
  proof (cases op)
    case (Mutate name v)
    have "snapshot_at cls (setattr self name v) k" "pk (setattr self name v) \<noteq> None"
      using Cons.prems by (simp_all add: snapshot_at_def setattr_def)
    from Cons.IH [OF this, of st] show ?thesis
      using Mutate by simp
  next
    case Save
    from save_succeeds [OF Cons.prems(1) assms(3), of st] obtain self1 st1 where
      save: "RevisedModel_save cls self st = (Inr self1, st1)"
      by blast
    from save_step [OF save Cons.prems(1) Cons.prems(2)]
    have "pk self1 \<noteq> None" and "snapshot_at cls self1 k \<or> snapshot_at cls self1 (k + 1)"
      using Cons.prems(2) by auto
    then obtain k' where "snapshot_at cls self1 k'" by blast
    from Cons.IH [OF this \<open>pk self1 \<noteq> None\<close>, of st1] show ?thesis
      using Save save by simp
  qed
qed

lemma run_succeeds_from_fresh_instance:
  assumes "pk self = None"
    and "attrs self (revision_field_name (settings cls)) = PyInt 1"
    and "\<forall>v. Mutate (revision_field_name (settings cls)) v \<notin> set (takeWhile (\<lambda>op. op \<noteq> Save) ops)"
    and "revision_field_name (settings cls) \<in> set (revised_field_names (settings cls))"
  shows "\<exists>self' st'. run cls ops self st = (Inr self', st')"
  using assms(1,2,3)
proof (induction ops arbitrary: self st)
  case Nil
  show ?case by simp
next
  case (Cons op ops)
  let ?rev = "revision_field_name (settings cls)"
  show ?case
  proof (cases op)
    case (Mutate name v)
    have ne: "name \<noteq> ?rev"
      using Cons.prems(3) Mutate by auto
    have "pk (setattr self name v) = None"
      using Cons.prems(1) by (simp add: setattr_def)
    moreover have "attrs (setattr self name v) ?rev = PyInt 1"
      using Cons.prems(2) ne by (simp add: setattr_def)
    moreover have "\<forall>v. Mutate ?rev v \<notin> set (takeWhile (\<lambda>op. op \<noteq> Save) ops)"
      using Cons.prems(3) Mutate by simp
    ultimately have "\<exists>self' st'. run cls ops (setattr self name v) st = (Inr self', st')"
      by (rule Cons.IH)
    then show ?thesis using Mutate by simp
  next
    case Save
    obtain self1 st1 where ms: "Model_save cls self st = (self1, st1)"
      by (cases "Model_save cls self st")
    have save: "RevisedModel_save cls self st = (Inr self1, st1)"
      using ms Cons.prems(1) by (simp add: RevisedModel_save_def)
    note res = Model_save_result [OF ms]
    have inv: "snapshot_at cls self1 1"
      using res Cons.prems(2) unfolding snapshot_at_def by blast
    have "pk self1 \<noteq> None" using res by simp
    from run_succeeds_from_invariant [OF inv this assms(4), of ops st1] show ?thesis
      using Save save by simp
  qed
qed

lemma Model_init_fresh:
  "map_of kwargs (revision_field_name s) = None \<Longrightarrow>
   pk (Model_init (RevisedModelBase_new s declared repr_fn) kwargs) = None \<and>
   attrs (Model_init (RevisedModelBase_new s declared repr_fn) kwargs) (revision_field_name s)
     = PyInt 1"
proof -
  assume none: "map_of kwargs (revision_field_name s) = None"
  have "map_of (filter (\<lambda>fd. fst fd \<noteq> revision_field_name s) declared) (revision_field_name s) = None"
    by (auto simp: map_of_eq_None_iff)
  then have "map_of (meta_fields (RevisedModelBase_new s declared repr_fn)) (revision_field_name s)
      = Some (PyInt 1)"
    by (simp add: RevisedModelBase_new_def Let_def map_add_def)
  then show ?thesis
    using none by (simp add: Model_init_def record_model_values_def)
qed

lemma archived_append:
  "revision_rows st' = revision_rows st @ new \<Longrightarrow> archived st st' = new"
  by (simp add: archived_def)

text \<open>
  A run on a persisted instance whose Snapshot is \<open>a\<close> on the revised fields:
  the first History Record it archives, if it archives any, carries the revision
  number of the Snapshot, and the later ones count up from there.
\<close>

lemma run_from_persisted:
  assumes "run cls ops self st = (Inr self', st')"
    and "pk self \<noteq> None"
    and "revised_initial_values self =
           Some (map (\<lambda>f. (f, a f)) (revised_field_names (settings cls)))"
  shows "\<exists>new. revision_rows st' = revision_rows st @ new \<and>
     (\<forall>r \<in> set new. r_owner r = pk self') \<and>
     (new = [] \<or>
      (\<exists>n. a (revision_field_name (settings cls)) = PyInt n \<and>
           consecutive_from n
             (map (\<lambda>r. r_values r (revision_field_name (settings cls))) new)))"
  using assms
proof (induction ops arbitrary: self st)
  case Nil
  then show ?case by simp
next
  case (Cons op ops)
  let ?rev = "revision_field_name (settings cls)"
  let ?names = "revised_field_names (settings cls)"
  show ?case
  proof (cases op)
    case (Mutate name v)
    have "run cls ops (setattr self name v) st = (Inr self', st')"
      using Cons.prems(1) Mutate by simp
    moreover have "pk (setattr self name v) \<noteq> None"
      using Cons.prems(2) by (simp add: setattr_def)
    moreover have "revised_initial_values (setattr self name v) =
        Some (map (\<lambda>f. (f, a f)) ?names)"
      using Cons.prems(3) by (simp add: setattr_def)
    ultimately show ?thesis
      by (rule Cons.IH)
  next
    case Save
    from Cons.prems(1) Save obtain self1 st1 where
      save: "RevisedModel_save cls self st = (Inr self1, st1)"
      and rest: "run cls ops self1 st1 = (Inr self', st')"
      by (auto split: prod.splits sum.splits)
    from RevisedModel_save_cases [OF save] consider
      (plain) "pk self = None \<or> changed self = Inr False" "Model_save cls self st = (self1, st1)"
    | (archive) snap n where "revised_initial_values self = Some snap"
        "map_of snap ?rev = Some (PyInt n)"
        "Model_save cls (setattr self ?rev (PyInt (n + 1)))
          (st\<lparr>revision_rows := revision_rows st @
                [\<lparr>r_pk = Some (next_revision_pk st),
                  r_values = (\<lambda>name. case map_of snap name of Some v \<Rightarrow> v | None \<Rightarrow> PyNone),
                  r_owner = pk self\<rparr>],
              next_revision_pk := Suc (next_revision_pk st)\<rparr>) = (self1, st1)"
      by blast
    then show ?thesis
    proof cases
      case plain
      note same = plain(1) and ms = plain(2)
      from same Cons.prems(2) have "changed self = Inr False" by simp
      then have eq: "\<forall>f \<in> set ?names. attrs self f = a f"
        using Cons.prems(3) by (auto simp: changed_def changed_loop_iff)
      have "map (\<lambda>f. (f, attrs self f)) ?names = map (\<lambda>f. (f, a f)) ?names"
        using eq by simp
      then have snap1: "revised_initial_values self1 = Some (map (\<lambda>f. (f, a f)) ?names)"
        using Model_save_result [OF ms] by simp
      have p1: "pk self1 \<noteq> None"
        using Model_save_result [OF ms] by simp
      from Cons.IH [OF rest p1 snap1] show ?thesis
        using Model_save_result [OF ms] by simp
    next
      case archive
      note s' = archive(1) and num = archive(2) and ms = archive(3)
      let ?r = "\<lparr>r_pk = Some (next_revision_pk st),
                  r_values = (\<lambda>name. case map_of snap name of Some v \<Rightarrow> v | None \<Rightarrow> PyNone),
                  r_owner = pk self\<rparr>"
      have s_eq: "snap = map (\<lambda>f. (f, a f)) ?names"
        using Cons.prems(3) s' by simp
      have an: "a ?rev = PyInt n"
        using num unfolding s_eq map_of_snapshot by (auto split: if_splits)
      note res = Model_save_result [OF ms]
      have "attrs (setattr self ?rev (PyInt (n + 1))) ?rev = PyInt (n + 1)"
        by (simp add: setattr_def)
      then have inv: "snapshot_at cls self1 (n + 1)"
        using res unfolding snapshot_at_def by blast
      have pk1: "pk self1 = pk self" "pk self1 \<noteq> None"
        using res Cons.prems(2) by (simp_all add: setattr_def)
      from run_from_invariant [OF rest inv pk1(2)] obtain new where
        rows': "revision_rows st' = revision_rows st1 @ new"
        and cons: "consecutive_from (n + 1) (map (\<lambda>r. r_values r ?rev) new)"
        and owners: "\<forall>r \<in> set new. r_owner r = pk self'" and pk': "pk self' = pk self1"
        by blast
      have "revision_rows st' = revision_rows st @ (?r # new)"
        using rows' res by simp
      moreover have "consecutive_from n (map (\<lambda>r. r_values r ?rev) (?r # new))"
        using cons num by simp
      moreover have "\<forall>x \<in> set (?r # new). r_owner x = pk self'"
        using owners pk' pk1 by simp
      ultimately show ?thesis
        using an by (intro exI [of _ "?r # new"]) blast
    qed
  qed
qed

text \<open>
  A run on an instance that is not persisted yet: the first save inserts the
  instance and takes the Snapshot, so the first History Record that the run
  archives carries the revision number the instance held at that save.
\<close>

lemma run_from_unsaved:
  assumes "run cls ops self st = (Inr self', st')"
    and "pk self = None"
  shows "\<exists>new. revision_rows st' = revision_rows st @ new \<and>
     (\<forall>r \<in> set new. r_owner r = pk self') \<and>
     (new = [] \<or>
      (\<exists>n. first_saved_revision cls ops self = PyInt n \<and>
           consecutive_from n
             (map (\<lambda>r. r_values r (revision_field_name (settings cls))) new)))"
  using assms
proof (induction ops arbitrary: self st)
  case Nil
  then show ?case by simp
next
  case (Cons op ops)
  let ?rev = "revision_field_name (settings cls)"
  show ?case
  proof (cases op)
    case (Mutate name v)
    have "run cls ops (setattr self name v) st = (Inr self', st')"
      using Cons.prems(1) Mutate by simp
    moreover have "pk (setattr self name v) = None"
      using Cons.prems(2) by (simp add: setattr_def)
    ultimately have "\<exists>new. revision_rows st' = revision_rows st @ new \<and>
       (\<forall>r \<in> set new. r_owner r = pk self') \<and>
       (new = [] \<or>
        (\<exists>n. first_saved_revision cls ops (setattr self name v) = PyInt n \<and>
             consecutive_from n (map (\<lambda>r. r_values r ?rev) new)))"
      by (rule Cons.IH)
    moreover have "first_saved_revision cls (op # ops) self =
        first_saved_revision cls ops (setattr self name v)"
      using Mutate by (simp add: first_saved_revision_def)
    ultimately show ?thesis by simp
  next
    case Save
    from Cons.prems(1) Save obtain self1 st1 where
      save: "RevisedModel_save cls self st = (Inr self1, st1)"
      and rest: "run cls ops self1 st1 = (Inr self', st')"
      by (auto split: prod.splits sum.splits)
    have ms: "Model_save cls self st = (self1, st1)"
      using save Cons.prems(2) by (auto simp: RevisedModel_save_def split: prod.splits)
    note res = Model_save_result [OF ms]
    have p1: "pk self1 \<noteq> None" using res by simp
    have snap1: "revised_initial_values self1 =
        Some (map (\<lambda>f. (f, attrs self f)) (revised_field_names (settings cls)))"
      using res by simp
    have first: "first_saved_revision cls (op # ops) self = attrs self ?rev"
      using Save by (simp add: first_saved_revision_def)
    from run_from_persisted [OF rest p1 snap1] show ?thesis
      unfolding first using res by simp
  qed
qed

lemma first_saved_revision_untouched:
  "\<forall>v. Mutate (revision_field_name (settings cls)) v \<notin> set (takeWhile (\<lambda>op. op \<noteq> Save) ops) \<Longrightarrow>
   first_saved_revision cls ops self = attrs self (revision_field_name (settings cls))"
proof (induction ops arbitrary: self)
  case Nil
  show ?case by (simp add: first_saved_revision_def)
next
  case (Cons op ops)
  show ?case
  proof (cases op)
    case Save
    then show ?thesis by (simp add: first_saved_revision_def)
  next
    case (Mutate name v)
    have ne: "name \<noteq> revision_field_name (settings cls)"
      using Cons.prems Mutate by auto
    have "\<forall>v. Mutate (revision_field_name (settings cls)) v
        \<notin> set (takeWhile (\<lambda>op. op \<noteq> Save) ops)"
      using Cons.prems Mutate by simp
    from Cons.IH [OF this, of "setattr self name v"]
    have "first_saved_revision cls ops (setattr self name v) =
        attrs self (revision_field_name (settings cls))"
      using ne by (simp add: setattr_def)
    then show ?thesis
      using Mutate by (simp add: first_saved_revision_def)
  qed
qed

lemmas run_eval =
  RevisedModel_save_def changed_def save_revision_def revision_model_save_def
  Model_save_revision_def Model_save_def record_model_values_def Model_init_def setattr_def
  Article_simps empty_db_def archived_def archived_revisions_def Let_def

text \<open>
  C9, as amended. An instance is constructed and then saved and mutated in any
  order. If the run returns normally, the store has only grown, by History
  Records of that instance, and the revision numbers of the records the run
  archived, if there are any, count up in steps of one from the revision number
  the instance held when it was first saved: the first archived record carries
  that number and each later one carries exactly one more than the one before.
  That number is 1, so that the sequence is 1, 2, 3, ..., when the type is built
  by the metaclass, the instance is constructed without an explicit revision
  number and its revision-number field is not assigned before the first save.
\<close>

theorem run_archives_consecutive_revisions:
  "(run cls ops (Model_init cls kwargs) st = (Inr self', st') \<longrightarrow>
      revision_rows st' = revision_rows st @ archived st st' \<and>
      (\<forall>r \<in> set (archived st st'). r_owner r = pk self') \<and>
      (archived_revisions cls st st' = [] \<or>
       (\<exists>n. first_saved_revision cls ops (Model_init cls kwargs) = PyInt n \<and>
            consecutive_from n (archived_revisions cls st st')))) \<and>
   (cls = RevisedModelBase_new s declared repr_fn \<and>
    map_of kwargs (revision_field_name s) = None \<and>
    (\<forall>v. Mutate (revision_field_name s) v \<notin> set (takeWhile (\<lambda>op. op \<noteq> Save) ops)) \<longrightarrow>
      first_saved_revision cls ops (Model_init cls kwargs) = PyInt 1)"
proof (intro conjI impI)
  assume r: "run cls ops (Model_init cls kwargs) st = (Inr self', st')"
  have unsaved: "pk (Model_init cls kwargs) = None"
    by (simp add: Model_init_def record_model_values_def)
  from run_from_unsaved [OF r unsaved] obtain new where
    rows: "revision_rows st' = revision_rows st @ new"
    and owners: "\<forall>r \<in> set new. r_owner r = pk self'"
    and cons: "new = [] \<or>
      (\<exists>n. first_saved_revision cls ops (Model_init cls kwargs) = PyInt n \<and>
           consecutive_from n
             (map (\<lambda>r. r_values r (revision_field_name (settings cls))) new))"
    by blast
  note eq = archived_append [OF rows]
  show "revision_rows st' = revision_rows st @ archived st st'"
    using rows eq by simp
  show "\<forall>r \<in> set (archived st st'). r_owner r = pk self'"
    using owners eq by simp
  show "archived_revisions cls st st' = [] \<or>
       (\<exists>n. first_saved_revision cls ops (Model_init cls kwargs) = PyInt n \<and>
            consecutive_from n (archived_revisions cls st st'))"
    using cons eq by (auto simp: archived_revisions_def)
next
  assume h: "cls = RevisedModelBase_new s declared repr_fn \<and>
    map_of kwargs (revision_field_name s) = None \<and>
    (\<forall>v. Mutate (revision_field_name s) v \<notin> set (takeWhile (\<lambda>op. op \<noteq> Save) ops))"
  have rev: "revision_field_name (settings cls) = revision_field_name s"
    using h metaclass_revision_field [of s declared repr_fn] by simp
  have one: "attrs (Model_init cls kwargs) (revision_field_name (settings cls)) = PyInt 1"
    using h Model_init_fresh [of kwargs s declared repr_fn] rev by simp
  have quiet: "\<forall>v. Mutate (revision_field_name (settings cls)) v
      \<notin> set (takeWhile (\<lambda>op. op \<noteq> Save) ops)"
    using h rev by simp
  show "first_saved_revision cls ops (Model_init cls kwargs) = PyInt 1"
    using first_saved_revision_untouched [OF quiet, of "Model_init cls kwargs"] one by simp
qed

theorem run_archives_consecutive_revisions_witness:
  "Article =
     RevisedModelBase_new ex_settings [(''name'', PyStr ''''), (''views'', PyInt 0)]
       (\<lambda>r. ''<ArticleRevision: ArticleRevision object>'') \<and>
   map_sum id pk
     (fst (run Article
             [Save, Mutate ''name'' (PyStr ''B''), Save, Mutate ''revision'' (PyInt 9),
              Mutate ''name'' (PyStr ''C''), Save, Save]
             (Model_init Article [(''name'', PyStr ''A'')]) empty_db)) = Inr (Some 1) \<and>
   archived_revisions Article empty_db
     (snd (run Article
             [Save, Mutate ''name'' (PyStr ''B''), Save, Mutate ''revision'' (PyInt 9),
              Mutate ''name'' (PyStr ''C''), Save, Save]
             (Model_init Article [(''name'', PyStr ''A'')]) empty_db)) = [PyInt 1, PyInt 2] \<and>
   first_saved_revision Article
     [Save, Mutate ''name'' (PyStr ''B''), Save, Mutate ''revision'' (PyInt 9),
      Mutate ''name'' (PyStr ''C''), Save, Save]
     (Model_init Article [(''name'', PyStr ''A'')]) = PyInt 1 \<and>
   consecutive_from 1
     (archived_revisions Article empty_db
        (snd (run Article
                [Save, Mutate ''name'' (PyStr ''B''), Save, Mutate ''revision'' (PyInt 9),
                 Mutate ''name'' (PyStr ''C''), Save, Save]
                (Model_init Article [(''name'', PyStr ''A'')]) empty_db)))"
proof -
  let ?ops = "[Save, Mutate ''name'' (PyStr ''B''), Save, Mutate ''revision'' (PyInt 9),
              Mutate ''name'' (PyStr ''C''), Save, Save]"
  let ?kw = "[(''name'', PyStr ''A'')]"
  let ?run = "run Article ?ops (Model_init Article ?kw) empty_db"
  have h: "Article =
     RevisedModelBase_new ex_settings [(''name'', PyStr ''''), (''views'', PyInt 0)]
       (\<lambda>r. ''<ArticleRevision: ArticleRevision object>'') \<and>
    map_of ?kw (revision_field_name ex_settings) = None \<and>
    (\<forall>v. Mutate (revision_field_name ex_settings) v \<notin> set (takeWhile (\<lambda>op. op \<noteq> Save) ?ops))"
    by (simp add: Article_def ex_settings_def)
  have p: "map_sum id pk (fst ?run) = Inr (Some 1)"
    by (simp add: run_eval)
  then obtain self1 where "fst ?run = Inr self1"
    by (cases "fst ?run") simp_all
  then have r: "?run = (Inr self1, snd ?run)"
    by (simp add: prod_eq_iff)
  have v: "archived_revisions Article empty_db (snd ?run) = [PyInt 1, PyInt 2]"
    by (simp add: run_eval)
  note inst = run_archives_consecutive_revisions
    [of Article ?ops ?kw empty_db self1 "snd ?run" ex_settings
       "[(''name'', PyStr ''''), (''views'', PyInt 0)]"
       "\<lambda>r. ''<ArticleRevision: ArticleRevision object>''"]
  from inst h have f: "first_saved_revision Article ?ops (Model_init Article ?kw) = PyInt 1"
    by blast
  from inst r have "archived_revisions Article empty_db (snd ?run) = [] \<or>
       (\<exists>n. first_saved_revision Article ?ops (Model_init Article ?kw) = PyInt n \<and>
            consecutive_from n (archived_revisions Article empty_db (snd ?run)))"
    by blast
  with v f have c: "consecutive_from 1 (archived_revisions Article empty_db (snd ?run))"
    by auto
  from h p v f c show ?thesis by (elim conjE) (intro conjI; assumption)
qed

text \<open>
  C9, counterexample. The revision-number field is assigned 5 before the first
  save; the first History Record that is archived then carries the revision
  number 5, not 1.
\<close>

theorem run_first_archived_revision_not_one:
  "archived_revisions Article empty_db
     (snd (run Article
             [Mutate ''revision'' (PyInt 5), Save, Mutate ''name'' (PyStr ''B''), Save]
             (Model_init Article [(''name'', PyStr ''A'')]) empty_db)) = [PyInt 5] \<and>
   \<not> consecutive_from 1
     (archived_revisions Article empty_db
        (snd (run Article
                [Mutate ''revision'' (PyInt 5), Save, Mutate ''name'' (PyStr ''B''), Save]
                (Model_init Article [(''name'', PyStr ''A'')]) empty_db)))"
proof -
  have v: "archived_revisions Article empty_db
     (snd (run Article
             [Mutate ''revision'' (PyInt 5), Save, Mutate ''name'' (PyStr ''B''), Save]
             (Model_init Article [(''name'', PyStr ''A'')]) empty_db)) = [PyInt 5]"
    by (simp add: run_eval)
  show ?thesis
    unfolding v by simp
qed

end
